theory Spec2Isabelle
  imports Complex_Main "HOL-Library.AList"
begin

text \<open>
  The functions of \<open>functions/main.py\<close> that keep the alerts of the last 24 hours in
  the Realtime Database: the ingestion of a new alert (\<open>categorize_and_store_alert\<close>),
  the sweep of old alerts (\<open>hourly_cleanup_http\<close>) and the two manual purges
  (\<open>delete_alerts_by_location\<close>, \<open>delete_alert_by_phenomenon_and_location\<close>). Each is
  a program over the database, taken as a JSON tree, that ends with a value or with the
  exception Python would raise. Line numbers are those of \<open>functions/main.py\<close>.
\<close>

section \<open>Values: JSON as Python sees it\<close>

text \<open>
  The Realtime Database holds a JSON tree and \<open>firebase_admin\<close> hands every node to
  Python as \<open>None\<close>, a bool, a number, a str or a dict. Python's int and float are both
  modelled by exact rationals (floating-point rounding is not modelled). A dict is an
  association list, in the order \<open>.items()\<close> yields it. JSON arrays do not occur in the
  paths this program writes and are left out.
\<close>

datatype json =
    JNull
  | JBool bool
  | JNum rat
  | JStr string
  | JObj "(string \<times> json) list"

datatype error =
    KeyError json
  | TypeError
  | AttributeError
  | ValueError
  | HTTPException nat

text \<open>Truthiness, as \<open>if x:\<close> and \<open>x or y\<close> test it.\<close>

fun truthy :: "json \<Rightarrow> bool" where
  "truthy JNull = False"
| "truthy (JBool b) = b"
| "truthy (JNum n) = (n \<noteq> 0)"
| "truthy (JStr s) = (s \<noteq> [])"
| "truthy (JObj es) = (es \<noteq> [])"

definition py_or :: "json \<Rightarrow> json \<Rightarrow> json" where
  "py_or a b = (if truthy a then a else b)"

text \<open>\<open>k in s\<close> on two strings is the substring test.\<close>

fun is_substring :: "string \<Rightarrow> string \<Rightarrow> bool" where
  "is_substring k [] = (k = [])"
| "is_substring k (c # cs) = (take (length k) (c # cs) = k \<or> is_substring k cs)"

text \<open>
  \<open>key in container\<close>. A dict's keys are strings, so a hashable key of another type is
  not in it, and an unhashable one (a dict) raises; on a str only a str may be asked for;
  nothing else is iterable.
\<close>

fun py_in :: "json \<Rightarrow> json \<Rightarrow> error + bool" where
  "py_in (JStr k) (JObj es) = Inr (map_of es k \<noteq> None)"
| "py_in (JObj k) (JObj es) = Inl TypeError"
| "py_in k (JObj es) = Inr False"
| "py_in (JStr k) (JStr s) = Inr (is_substring k s)"
| "py_in k c = Inl TypeError"

text \<open>\<open>container[key]\<close>.\<close>

fun subscript :: "json \<Rightarrow> json \<Rightarrow> error + json" where
  "subscript (JObj es) (JStr k) =
     (case map_of es k of Some v \<Rightarrow> Inr v | None \<Rightarrow> Inl (KeyError (JStr k)))"
| "subscript (JObj es) (JObj k) = Inl TypeError"
| "subscript (JObj es) k = Inl (KeyError k)"
| "subscript c k = Inl TypeError"

text \<open>\<open>container.get(key, default)\<close> with a string key; only a dict has the method.\<close>

fun dict_get :: "json \<Rightarrow> string \<Rightarrow> json \<Rightarrow> error + json" where
  "dict_get (JObj es) k d = Inr (case map_of es k of Some v \<Rightarrow> v | None \<Rightarrow> d)"
| "dict_get c k d = Inl AttributeError"

text \<open>\<open>container.items()\<close> and \<open>len(container)\<close>.\<close>

fun items :: "json \<Rightarrow> error + (string \<times> json) list" where
  "items (JObj es) = Inr es"
| "items c = Inl AttributeError"

fun py_len :: "json \<Rightarrow> error + nat" where
  "py_len (JObj es) = Inr (length es)"
| "py_len (JStr s) = Inr (length s)"
| "py_len c = Inl TypeError"

text \<open>Arithmetic: a bool counts as 0 or 1, anything else that is not a number raises.\<close>

fun num_of :: "json \<Rightarrow> error + rat" where
  "num_of (JNum n) = Inr n"
| "num_of (JBool b) = Inr (if b then 1 else 0)"
| "num_of v = Inl TypeError"

section \<open>The store\<close>

text \<open>
  The Realtime Database, as the program uses it through \<open>db.reference(path)\<close>: a JSON
  tree, a node of which is addressed by a list of keys. A node that does not exist reads
  as \<open>None\<close>; the database keeps no null and no empty object, so writing one, or
  deleting the last child of a node, removes the node. The store also records every call
  made on it.
\<close>

datatype db_op =
    Get "string list"
  | Set "string list" json
  | Delete "string list"

record store =
  tree :: json
  ops :: "db_op list"

fun entries :: "json \<Rightarrow> (string \<times> json) list" where
  "entries (JObj es) = es"
| "entries v = []"

definition mk_obj :: "(string \<times> json) list \<Rightarrow> json" where
  "mk_obj es = (if es = [] then JNull else JObj es)"

definition lookup :: "string \<Rightarrow> json \<Rightarrow> json" where
  "lookup k t = (case map_of (entries t) k of Some v \<Rightarrow> v | None \<Rightarrow> JNull)"

fun get_path :: "string list \<Rightarrow> json \<Rightarrow> json" where
  "get_path [] t = t"
| "get_path (k # ks) t = get_path ks (lookup k t)"

text \<open>
  \<open>put path v t\<close> stores \<open>v\<close> at \<open>path\<close>; \<open>v = JNull\<close> deletes. Nodes on the way are
  created (a primitive in the way is replaced), and a node left without children goes.
\<close>

fun put :: "string list \<Rightarrow> json \<Rightarrow> json \<Rightarrow> json" where
  "put [] v t = v"
| "put (k # ks) v t =
     (let c = put ks v (lookup k t)
      in if c = JNull then mk_obj (AList.delete k (entries t))
         else JObj (AList.update k c (entries t)))"

text \<open>What the database keeps of a written value: no null fields, no empty objects.\<close>

fun db_normalize :: "json \<Rightarrow> json" where
  "db_normalize (JObj es) =
     mk_obj (filter (\<lambda>kv. snd kv \<noteq> JNull) (map (\<lambda>kv. (fst kv, db_normalize (snd kv))) es))"
| "db_normalize v = v"

subsection \<open>Programs over the store\<close>

text \<open>
  A program runs on a store and ends with a value or with a raised exception; either way
  the calls made so far have taken effect.
\<close>

type_synonym 'a prog = "store \<Rightarrow> (error + 'a) \<times> store"

definition ret :: "'a \<Rightarrow> 'a prog" where
  "ret a = (\<lambda>s. (Inr a, s))"

definition throw :: "error \<Rightarrow> 'a prog" where
  "throw e = (\<lambda>s. (Inl e, s))"

definition lift :: "error + 'a \<Rightarrow> 'a prog" where
  "lift r = (\<lambda>s. (r, s))"

definition bnd :: "'a prog \<Rightarrow> ('a \<Rightarrow> 'b prog) \<Rightarrow> 'b prog" where
  "bnd m f = (\<lambda>s. case m s of (Inl e, s') \<Rightarrow> (Inl e, s') | (Inr a, s') \<Rightarrow> f a s')"

definition catch :: "'a prog \<Rightarrow> (error \<Rightarrow> 'a prog) \<Rightarrow> 'a prog" where
  "catch m h = (\<lambda>s. case m s of (Inl e, s') \<Rightarrow> h e s' | (Inr a, s') \<Rightarrow> (Inr a, s'))"

fun for_each :: "('a \<Rightarrow> 'b \<Rightarrow> 'b prog) \<Rightarrow> 'a list \<Rightarrow> 'b \<Rightarrow> 'b prog" where
  "for_each f [] acc = ret acc"
| "for_each f (x # xs) acc = bnd (f x acc) (for_each f xs)"

text \<open>\<open>db.reference(path).get()\<close>, \<open>.set(value)\<close> (which refuses \<open>None\<close>) and \<open>.delete()\<close>.\<close>

definition db_get :: "string list \<Rightarrow> json prog" where
  "db_get path = (\<lambda>s. (Inr (get_path path (tree s)), s\<lparr>ops := ops s @ [Get path]\<rparr>))"

definition db_set :: "string list \<Rightarrow> json \<Rightarrow> unit prog" where
  "db_set path v =
     (\<lambda>s. if v = JNull then (Inl ValueError, s)
          else (Inr (), s\<lparr>tree := put path (db_normalize v) (tree s),
                          ops := ops s @ [Set path v]\<rparr>))"

definition db_delete :: "string list \<Rightarrow> unit prog" where
  "db_delete path =
     (\<lambda>s. (Inr (), s\<lparr>tree := put path JNull (tree s), ops := ops s @ [Delete path]\<rparr>))"

subsection \<open>References from path strings\<close>

text \<open>
  \<open>db.reference(path)\<close> makes the list of keys from a path string: it raises
  \<open>ValueError\<close> when the string holds one of the characters \<open>[].?#$\<close>, and otherwise
  splits the string at every \<open>/\<close> and drops the empty segments. \<open>split_slash\<close> is
  \<open>path.split('/')\<close>, and \<open>slashed\<close> is an f-string whose components stand with
  \<open>/\<close> between them.
\<close>

definition INVALID_PATH_CHARACTERS :: string where
  "INVALID_PATH_CHARACTERS = ''[].?#$''"

definition has_invalid :: "string \<Rightarrow> bool" where
  "has_invalid path = (filter (\<lambda>ch. ch \<in> set INVALID_PATH_CHARACTERS) path \<noteq> [])"

fun split_slash :: "string \<Rightarrow> string list" where
  "split_slash [] = [] # []"
| "split_slash (ch # path) =
     (if ch = CHR ''/'' then [] # split_slash path
      else (case split_slash path of
              seg # segs \<Rightarrow> (ch # seg) # segs
            | [] \<Rightarrow> [ch] # []))"

definition segments :: "string \<Rightarrow> string list" where
  "segments path = filter (\<lambda>seg. seg \<noteq> []) (split_slash path)"

definition parse_path :: "string \<Rightarrow> error + string list" where
  "parse_path path = (if has_invalid path then Inl ValueError else Inr (segments path))"

definition reference :: "string \<Rightarrow> string list prog" where
  "reference path = lift (parse_path path)"

fun slashed :: "string list \<Rightarrow> string" where
  "slashed [] = []"
| "slashed [k] = k"
| "slashed (k # ks) = k @ CHR ''/'' # slashed ks"

text \<open>
  The ingestion puts into its paths what the client wrote (the phenomenon) and what the
  trigger and the digest gave it, so it is modelled with \<open>reference\<close> on the path
  strings. The sweep and the purges put into their paths keys that they have just read
  from the tree (the variables of the loop of the sweep, the fields of a purge request
  once they were found among the keys). A key of the database is its own single segment,
  and the reference of an f-string of keys is the list of these keys (lemma
  \<open>reference_of_keys\<close>), so these functions address the tree by the list of keys
  directly.
\<close>

section \<open>The environment of the functions\<close>

text \<open>
  What the functions take from outside the database: the geocoding request of
  \<open>get_location_name_and_bounds\<close> (a place name and its bounds, or an exception), the
  SHA-256 hex digest, how an f-string prints a value that is not a str, and the clock
  arithmetic and \<open>strftime\<close> of lines 113 to 116.
\<close>

record env =
  get_location_name_and_bounds :: "json \<Rightarrow> json \<Rightarrow> error + (string \<times> json)"
  sha256_hexdigest :: "string \<Rightarrow> string"
  py_str :: "json \<Rightarrow> string"
  athens_time :: "json \<Rightarrow> error + string"

definition fstr :: "env \<Rightarrow> json \<Rightarrow> string" where
  "fstr e v = (case v of JStr s \<Rightarrow> s | _ \<Rightarrow> py_str e v)"

definition and_then :: "error + 'a \<Rightarrow> ('a \<Rightarrow> error + 'b) \<Rightarrow> error + 'b" where
  "and_then r f = (case r of Inl e \<Rightarrow> Inl e | Inr a \<Rightarrow> f a)"

definition get_short_place_id :: "env \<Rightarrow> string \<Rightarrow> json \<Rightarrow> error + string" where
  "get_short_place_id e place bounds =
     and_then (subscript bounds (JStr ''northeast'')) (\<lambda>ne.
     and_then (subscript ne (JStr ''lat'')) (\<lambda>ne_lat.
     and_then (subscript ne (JStr ''lng'')) (\<lambda>ne_lng.
     and_then (subscript bounds (JStr ''southwest'')) (\<lambda>sw.
     and_then (subscript sw (JStr ''lat'')) (\<lambda>sw_lat.
     and_then (subscript sw (JStr ''lng'')) (\<lambda>sw_lng.
       Inr (take 16 (sha256_hexdigest e
              (place @ ''_'' @ fstr e ne_lat @ ''_'' @ fstr e ne_lng @ ''_''
                 @ fstr e sw_lat @ ''_'' @ fstr e sw_lng)))))))))"

section \<open>Ingestion: \<open>categorize_and_store_alert\<close>\<close>

definition ALERTS :: string where
  "ALERTS = ''alertsByPhenomenonAndLocationLast24h''"

definition COUNTS :: string where
  "COUNTS = ''alertsByPhenomenonAndLocationCountLast24h''"

record event =
  after :: json
  formID :: string

datatype ingest_outcome = Ignored | Stored | Dropped error

text \<open>
  Lines 128 to 157: the write of the alert under its place (with the bounds when the place
  is new), then the counter read, incremented in Python and written back. Each
  \<open>db.reference\<close> is made from its f-string, and \<open>counter_ref\<close> is made once.
\<close>

definition add_member :: "string \<Rightarrow> string \<Rightarrow> string \<Rightarrow> json \<Rightarrow> json \<Rightarrow> unit prog" where
  "add_member phenomenon place_id form_id essential bounds =
     bnd (reference (slashed [ALERTS, phenomenon, place_id])) (\<lambda>place_ref.
     bnd (db_get place_ref) (\<lambda>place_exists.
     bnd (if truthy place_exists
          then bnd (reference (slashed [ALERTS, phenomenon, place_id, ''alertForms'', form_id]))
                 (\<lambda>alert_ref. db_set alert_ref essential)
          else bnd (reference (slashed [ALERTS, phenomenon, place_id, ''alertForms'', form_id]))
                 (\<lambda>alert_ref.
               bnd (db_set alert_ref essential) (\<lambda>_.
               bnd (reference (slashed [ALERTS, phenomenon, place_id, ''bounds'']))
                 (\<lambda>bounds_ref. db_set bounds_ref bounds)))) (\<lambda>_.
     bnd (reference (slashed [COUNTS, phenomenon, place_id, ''counter''])) (\<lambda>counter_ref.
     bnd (db_get counter_ref) (\<lambda>counter.
     bnd (lift (num_of (py_or counter (JNum 0)))) (\<lambda>c.
     db_set counter_ref (JNum (c + 1))))))))"

text \<open>Lines 119 to 126; \<open>alert_form\<close> is a dict here, so \<open>.get\<close> is \<open>lookup\<close>.\<close>

definition essential_data :: "json \<Rightarrow> string \<Rightarrow> json" where
  "essential_data alert_form time =
     JObj [(''location'', lookup ''location'' alert_form),
           (''timestamp'', lookup ''timestamp'' alert_form),
           (''time'', JStr time),
           (''imageURL'', lookup ''imageURL'' alert_form),
           (''criticalLevel'', lookup ''criticalLevel'' alert_form),
           (''message'', lookup ''message'' alert_form)]"

text \<open>
  Lines 105 to 126, which touch no store: the geocoding, the place id, the phenomenon as
  the f-strings of the paths print it, the time, and the data to store. The result is
  the phenomenon, the place id, the data and the bounds.
\<close>

definition prepare_alert :: "env \<Rightarrow> event \<Rightarrow> error + (string \<times> string \<times> json \<times> json)" where
  "prepare_alert e ev =
     and_then (subscript (after ev) (JStr ''location'')) (\<lambda>location.
     and_then (subscript location (JStr ''latitude'')) (\<lambda>latitude.
     and_then (subscript location (JStr ''longitude'')) (\<lambda>longitude.
     and_then (get_location_name_and_bounds e latitude longitude) (\<lambda>(place, bounds).
     and_then (get_short_place_id e place bounds) (\<lambda>place_id.
     and_then (subscript (after ev) (JStr ''criticalWeatherPhenomenon'')) (\<lambda>phenomenon.
     and_then (subscript (after ev) (JStr ''timestamp'')) (\<lambda>timestamp.
     and_then (athens_time e timestamp) (\<lambda>time.
       Inr (fstr e phenomenon, place_id, essential_data (after ev) time, bounds)))))))))"

text \<open>The body of the \<open>try\<close>, lines 105 to 157.\<close>

definition process_alert :: "env \<Rightarrow> event \<Rightarrow> unit prog" where
  "process_alert e ev =
     bnd (lift (prepare_alert e ev)) (\<lambda>(phenomenon, place_id, essential, bounds).
       add_member phenomenon place_id (formID ev) essential bounds)"

text \<open>
  The whole function: the validation of line 101 (outside the \<open>try\<close>, so an \<open>in\<close> that
  raises is not caught), the early return, and the \<open>except\<close> that prints and returns.
\<close>

definition categorize_and_store_alert :: "env \<Rightarrow> event \<Rightarrow> ingest_outcome prog" where
  "categorize_and_store_alert e ev =
     bnd (lift (py_in (JStr ''location'') (after ev))) (\<lambda>has_location.
     if \<not> has_location then ret Ignored
     else bnd (lift (py_in (JStr ''criticalWeatherPhenomenon'') (after ev))) (\<lambda>has_phenomenon.
     if \<not> has_phenomenon then ret Ignored
     else catch (bnd (process_alert e ev) (\<lambda>_. ret Stored)) (\<lambda>err. ret (Dropped err))))"

section \<open>The sweep: \<open>hourly_cleanup_http\<close>\<close>

text \<open>The request, of which the function reads \<open>req.method\<close> only.\<close>

record request =
  req_method :: string

text \<open>Lines 201 to 208: the counter of the place, decremented.\<close>

definition sweep_decrement :: "string \<Rightarrow> string \<Rightarrow> unit prog" where
  "sweep_decrement phenomenon place =
     bnd (db_get [COUNTS, phenomenon, place, ''counter'']) (\<lambda>counter.
     bnd (lift (num_of (py_or counter (JNum 0)))) (\<lambda>c.
     if max 0 (c - 1) = 0 then db_delete [COUNTS, phenomenon, place]
     else db_set [COUNTS, phenomenon, place, ''counter''] (JNum (max 0 (c - 1)))))"

text \<open>Lines 196 to 208: what the sweep does with an alert it found too old.\<close>

definition sweep_remove :: "string \<Rightarrow> string \<Rightarrow> string \<Rightarrow> unit prog" where
  "sweep_remove phenomenon place alert_id =
     bnd (db_delete [ALERTS, phenomenon, place, ''alertForms'', alert_id]) (\<lambda>_.
     sweep_decrement phenomenon place)"

text \<open>
  Lines 192 to 208, the body of the innermost loop, for one item of \<open>alerts.items()\<close>;
  \<open>n\<close> is \<open>num_of_deleted_alerts\<close>.
\<close>

definition sweep_alert :: "rat \<Rightarrow> string \<Rightarrow> string \<Rightarrow> string \<times> json \<Rightarrow> nat \<Rightarrow> nat prog" where
  "sweep_alert current_timestamp phenomenon place item n =
     bnd (lift (subscript (snd item) (JStr ''timestamp''))) (\<lambda>timestamp.
     if truthy timestamp
     then bnd (lift (num_of timestamp)) (\<lambda>t.
          if current_timestamp - t / 1000 \<ge> 86400
          then bnd (sweep_remove phenomenon place (fst item)) (\<lambda>_. ret (n + 1))
          else ret n)
     else ret n)"

definition sweep_place :: "rat \<Rightarrow> string \<Rightarrow> string \<times> json \<Rightarrow> nat \<Rightarrow> nat prog" where
  "sweep_place current_timestamp phenomenon item n =
     bnd (lift (items (snd item))) (\<lambda>alerts.
     for_each (sweep_alert current_timestamp phenomenon (fst item)) alerts n)"

definition sweep_phenomenon :: "rat \<Rightarrow> string \<times> json \<Rightarrow> nat \<Rightarrow> nat prog" where
  "sweep_phenomenon current_timestamp item n =
     bnd (lift (items (snd item))) (\<lambda>places.
     for_each (sweep_place current_timestamp (fst item)) places n)"

text \<open>
  The function, for a request and the clock reading \<open>current_timestamp\<close> (seconds).
  \<open>abort(405)\<close> raises; nothing in this function catches an exception.
\<close>

definition hourly_cleanup_http :: "request \<Rightarrow> rat \<Rightarrow> (string \<times> nat) prog" where
  "hourly_cleanup_http req current_timestamp =
     (if req_method req \<noteq> ''POST'' then throw (HTTPException 405)
      else
        bnd (db_get [ALERTS]) (\<lambda>r.
        bnd (lift (py_len (py_or r (JObj [])))) (\<lambda>_.
        bnd (lift (items (py_or r (JObj [])))) (\<lambda>phenomena.
        bnd (for_each (sweep_phenomenon current_timestamp) phenomena 0)
          (\<lambda>num_of_deleted_alerts.
        bnd (db_set [''lastCleanupTimestamp''] (JNum current_timestamp)) (\<lambda>_.
        bnd (db_set [''lastNumOfDeletedAlerts''] (JNum (of_nat num_of_deleted_alerts))) (\<lambda>_.
        ret (''Cleanup completed'', 200))))))))"

section \<open>The manual purges\<close>

record callable_request =
  data :: json

text \<open>\<open>{'success': True}\<close>, or \<open>{'success': False, 'message': m}\<close>.\<close>

datatype response = Success | Failure string

definition delete_alerts_by_location :: "env \<Rightarrow> callable_request \<Rightarrow> response prog" where
  "delete_alerts_by_location e req =
     catch
       (bnd (lift (dict_get (data req) ''phenomenon'' (JStr ''''))) (\<lambda>phenomenon.
        bnd (lift (dict_get (data req) ''place'' (JStr ''''))) (\<lambda>place.
        bnd (db_get [ALERTS]) (\<lambda>r.
        bnd (lift (py_in phenomenon (py_or r (JObj [])))) (\<lambda>phenomenon_found.
        if phenomenon_found
        then bnd (lift (subscript (py_or r (JObj [])) phenomenon)) (\<lambda>places.
             bnd (lift (py_in place places)) (\<lambda>place_found.
             if place_found
             then bnd (db_delete [ALERTS, fstr e phenomenon, fstr e place]) (\<lambda>_.
                  bnd (db_delete [COUNTS, fstr e phenomenon, fstr e place]) (\<lambda>_.
                  ret Success))
             else ret (Failure ''Place not found'')))
        else ret (Failure ''Phenomenon not found''))))))
       (\<lambda>err. ret (Failure ''An unexpected error occurred''))"

text \<open>Lines 276 to 283: the decrement of the single-alert purge, on the node of the place.\<close>

definition purge_decrement :: "string \<Rightarrow> string \<Rightarrow> unit prog" where
  "purge_decrement phenomenon place =
     bnd (db_get [COUNTS, phenomenon, place]) (\<lambda>counter.
     bnd (lift (num_of (py_or counter (JNum 0)))) (\<lambda>c.
     if max 0 (c - 1) = 0 then db_delete [COUNTS, phenomenon, place]
     else db_set [COUNTS, phenomenon, place] (JNum (max 0 (c - 1)))))"

text \<open>Lines 273 to 283.\<close>

definition purge_remove :: "string \<Rightarrow> string \<Rightarrow> string \<Rightarrow> unit prog" where
  "purge_remove phenomenon place alert_id =
     bnd (db_delete [ALERTS, phenomenon, place, alert_id]) (\<lambda>_.
     purge_decrement phenomenon place)"

definition delete_alert_by_phenomenon_and_location ::
    "env \<Rightarrow> callable_request \<Rightarrow> response prog" where
  "delete_alert_by_phenomenon_and_location e req =
     catch
       (bnd (lift (dict_get (data req) ''phenomenon'' (JStr ''''))) (\<lambda>phenomenon.
        bnd (lift (dict_get (data req) ''place'' (JStr ''''))) (\<lambda>place.
        bnd (lift (dict_get (data req) ''alertID'' (JStr ''''))) (\<lambda>alert_id.
        bnd (db_get [ALERTS]) (\<lambda>r.
        bnd (lift (py_in phenomenon (py_or r (JObj [])))) (\<lambda>phenomenon_found.
        if phenomenon_found
        then bnd (lift (subscript (py_or r (JObj [])) phenomenon)) (\<lambda>places.
             bnd (lift (py_in place places)) (\<lambda>place_found.
             if place_found
             then bnd (lift (subscript places place)) (\<lambda>alerts.
                  bnd (lift (py_in alert_id alerts)) (\<lambda>alert_found.
                  if alert_found
                  then bnd (purge_remove (fstr e phenomenon) (fstr e place) (fstr e alert_id))
                         (\<lambda>_. ret Success)
                  else ret (Failure ''Alert not found'')))
             else ret (Failure ''Place not found'')))
        else ret (Failure ''Phenomenon not found'')))))))
       (\<lambda>err. ret (Failure ''An unexpected error occurred''))"

section \<open>Notions the properties are stated with\<close>

text \<open>Two paths that part at some key: neither leads through the other.\<close>

fun unrelated :: "string list \<Rightarrow> string list \<Rightarrow> bool" where
  "unrelated (k # ks) (k' # ks') = (k \<noteq> k' \<or> unrelated ks ks')"
| "unrelated p q = False"

definition client_error :: "nat \<Rightarrow> bool" where
  "client_error code = (400 \<le> code \<and> code < 500)"

definition has_key :: "string \<Rightarrow> json \<Rightarrow> bool" where
  "has_key k v = (map_of (entries v) k \<noteq> None)"

text \<open>
  A key of the database, as a path takes it: not empty, without \<open>/\<close> and without the
  characters that \<open>db.reference\<close> refuses.
\<close>

definition is_key :: "string \<Rightarrow> bool" where
  "is_key k = (k \<noteq> [] \<and> filter (\<lambda>ch. ch = CHR ''/'') k = [] \<and> \<not> has_invalid k)"

subsection \<open>The layout of the alerts tree\<close>

text \<open>
  The layout of the alerts tree, as far as the purge of a bucket relies on it: the tree is
  absent or a dict, and each phenomenon in it is a dict of places. A phenomenon exists when
  it is a key of the tree, a bucket when its place is a key of its phenomenon.
\<close>

fun is_dict :: "json \<Rightarrow> bool" where
  "is_dict (JObj es) = True"
| "is_dict v = False"

definition alerts_typed :: "json \<Rightarrow> bool" where
  "alerts_typed t =
     (case get_path [ALERTS] t of
        JNull \<Rightarrow> True
      | JObj es \<Rightarrow> list_all (\<lambda>kv. is_dict (snd kv)) es
      | _ \<Rightarrow> False)"

definition phenomenon_exists :: "json \<Rightarrow> string \<Rightarrow> bool" where
  "phenomenon_exists t p = has_key p (get_path [ALERTS] t)"

definition bucket_exists :: "json \<Rightarrow> string \<Rightarrow> string \<Rightarrow> bool" where
  "bucket_exists t p b = (phenomenon_exists t p \<and> has_key b (get_path [ALERTS, p] t))"

text \<open>The call \<open>PurgeBucket(phenomenon, bucketId)\<close>: its data holds the two strings.\<close>

definition bucket_request :: "string \<Rightarrow> string \<Rightarrow> callable_request" where
  "bucket_request p b = \<lparr> data = JObj [(''phenomenon'', JStr p), (''place'', JStr b)] \<rparr>"

subsection \<open>The counter and the members of a bucket\<close>

text \<open>
  The invariant of a bucket. Its members are the keys under \<open>alertForms\<close>; its counter
  is the number stored at \<open>.../counter\<close>, an absent counter standing for none. The
  counter matches when it is the number of distinct members.
\<close>

definition member_ids :: "json \<Rightarrow> string \<Rightarrow> string \<Rightarrow> string list" where
  "member_ids t p b = map fst (entries (get_path [ALERTS, p, b, ''alertForms''] t))"

definition member_count :: "json \<Rightarrow> string \<Rightarrow> string \<Rightarrow> nat" where
  "member_count t p b = length (remdups (member_ids t p b))"

fun counter_agrees :: "json \<Rightarrow> nat \<Rightarrow> bool" where
  "counter_agrees JNull n = (n = 0)"
| "counter_agrees (JNum c) n = (c = of_nat n)"
| "counter_agrees v n = False"

definition counter_matches :: "json \<Rightarrow> string \<Rightarrow> string \<Rightarrow> bool" where
  "counter_matches t p b =
     counter_agrees (get_path [COUNTS, p, b, ''counter''] t) (member_count t p b)"

text \<open>
  Sequences of ingestions and bucket purges, run one after the other on the store. An
  ingestion is keyed when the phenomenon, the place id and the form id that it puts into
  its paths are keys, and new to its bucket when the id of its alert is not yet a member
  of the bucket the alert goes to (an alert whose preparation raises goes to none).
\<close>

datatype action = Ingest event | PurgeBucket callable_request

fun perform :: "env \<Rightarrow> action \<Rightarrow> store \<Rightarrow> store" where
  "perform e (Ingest ev) s = snd (categorize_and_store_alert e ev s)"
| "perform e (PurgeBucket req) s = snd (delete_alerts_by_location e req s)"

fun run :: "env \<Rightarrow> action list \<Rightarrow> store \<Rightarrow> store" where
  "run e [] s = s"
| "run e (a # as) s = run e as (perform e a s)"

definition keyed :: "env \<Rightarrow> event \<Rightarrow> bool" where
  "keyed e ev =
     (case prepare_alert e ev of
        Inl err \<Rightarrow> True
      | Inr (ph, pid, ess, bnds) \<Rightarrow> is_key ph \<and> is_key pid \<and> is_key (formID ev))"

definition new_to_bucket :: "env \<Rightarrow> event \<Rightarrow> json \<Rightarrow> bool" where
  "new_to_bucket e ev t =
     (case prepare_alert e ev of
        Inl err \<Rightarrow> True
      | Inr (ph, pid, ess, bnds) \<Rightarrow> formID ev \<notin> set (member_ids t ph pid))"

fun all_new :: "env \<Rightarrow> action list \<Rightarrow> store \<Rightarrow> bool" where
  "all_new e [] s = True"
| "all_new e (Ingest ev # as) s =
     (keyed e ev \<and> new_to_bucket e ev (tree s) \<and> all_new e as (perform e (Ingest ev) s))"
| "all_new e (PurgeBucket req # as) s = all_new e as (perform e (PurgeBucket req) s)"

text \<open>
  Lines 131 to 157 once their references are made: \<open>place\<close> is the reference of the
  place, \<open>form\<close> the segments of the form id below \<open>alertForms\<close>, and \<open>counter_ref\<close>
  the reference of the counter. \<open>alert_written\<close> is the tree after the writes of lines
  131 to 146.
\<close>

definition writes_of_member ::
    "string list \<Rightarrow> string list \<Rightarrow> string list \<Rightarrow> json \<Rightarrow> json \<Rightarrow> unit prog" where
  "writes_of_member place form counter_ref essential bounds =
     bnd (db_get place) (\<lambda>place_exists.
     bnd (if truthy place_exists
          then db_set (place @ ''alertForms'' # form) essential
          else bnd (db_set (place @ ''alertForms'' # form) essential)
                 (\<lambda>_. db_set (place @ [''bounds'']) bounds)) (\<lambda>_.
     bnd (db_get counter_ref) (\<lambda>counter.
     bnd (lift (num_of (py_or counter (JNum 0)))) (\<lambda>c.
     db_set counter_ref (JNum (c + 1))))))"

definition alert_written :: "string list \<Rightarrow> string list \<Rightarrow> json \<Rightarrow> json \<Rightarrow> json \<Rightarrow> json" where
  "alert_written place form ess bnds t =
     (if truthy (get_path place t)
      then put (place @ ''alertForms'' # form) (db_normalize ess) t
      else put (place @ [''bounds'']) (db_normalize bnds)
             (put (place @ ''alertForms'' # form) (db_normalize ess) t))"

subsection \<open>Two ingestions at once\<close>

text \<open>
  Two ingestions at once. Each call of lines 128 to 157 is a sequence of calls on the
  database: the read of the place, the write of the alert, the write of the bounds when the
  place was not there, the read of the counter, and the write of the counter incremented
  in Python. \<open>member_step\<close> makes one of these calls, with the reference it is made on,
  and moves the call to its next stage; between two calls on the database another
  ingestion may make its own. \<open>interleave\<close> runs two calls under a schedule that says
  whose turn each step is, and \<open>remaining\<close> bounds the steps a call still has to make.
\<close>

record member_call =
  c_phenomenon :: string
  c_place_id :: string
  c_form_id :: string
  c_essential :: json
  c_bounds :: json

datatype stage =
    Begin | Checked json | Saving_bounds | Reading | Writing "string list" json | Done
  | Raised error

definition proceed :: "('a \<Rightarrow> stage) \<Rightarrow> (error + 'a) \<times> store \<Rightarrow> stage \<times> store" where
  "proceed next r = (case r of (Inr a, s') \<Rightarrow> (next a, s') | (Inl err, s') \<Rightarrow> (Raised err, s'))"

fun member_step :: "member_call \<Rightarrow> stage \<Rightarrow> store \<Rightarrow> stage \<times> store" where
  "member_step c Begin s =
     proceed Checked
       (bnd (reference (slashed [ALERTS, c_phenomenon c, c_place_id c])) db_get s)"
| "member_step c (Checked place_exists) s =
     proceed (\<lambda>_. if truthy place_exists then Reading else Saving_bounds)
       (bnd (reference
               (slashed [ALERTS, c_phenomenon c, c_place_id c, ''alertForms'', c_form_id c]))
          (\<lambda>alert_ref. db_set alert_ref (c_essential c)) s)"
| "member_step c Saving_bounds s =
     proceed (\<lambda>_. Reading)
       (bnd (reference (slashed [ALERTS, c_phenomenon c, c_place_id c, ''bounds'']))
          (\<lambda>bounds_ref. db_set bounds_ref (c_bounds c)) s)"
| "member_step c Reading s =
     proceed (\<lambda>(counter_ref, counter). Writing counter_ref counter)
       (bnd (reference (slashed [COUNTS, c_phenomenon c, c_place_id c, ''counter'']))
          (\<lambda>counter_ref. bnd (db_get counter_ref) (\<lambda>counter. ret (counter_ref, counter))) s)"
| "member_step c (Writing counter_ref counter) s =
     proceed (\<lambda>_. Done)
       (bnd (lift (num_of (py_or counter (JNum 0))))
          (\<lambda>n. db_set counter_ref (JNum (n + 1))) s)"
| "member_step c Done s = (Done, s)"
| "member_step c (Raised err) s = (Raised err, s)"

fun remaining :: "stage \<Rightarrow> nat" where
  "remaining Begin = 5"
| "remaining (Checked place_exists) = 4"
| "remaining Saving_bounds = 3"
| "remaining Reading = 2"
| "remaining (Writing counter_ref counter) = 1"
| "remaining Done = 0"
| "remaining (Raised err) = 0"

fun steps :: "member_call \<Rightarrow> nat \<Rightarrow> stage \<times> store \<Rightarrow> stage \<times> store" where
  "steps c 0 cfg = cfg"
| "steps c (Suc n) cfg = steps c n (member_step c (fst cfg) (snd cfg))"

fun interleave ::
    "member_call \<Rightarrow> member_call \<Rightarrow> bool list \<Rightarrow> stage \<times> stage \<times> store \<Rightarrow> stage \<times> stage \<times> store" where
  "interleave A B [] cfg = cfg"
| "interleave A B (first # sched) (a, b, s) =
     (if first then interleave A B sched (fst (member_step A a s), b, snd (member_step A a s))
      else interleave A B sched (a, fst (member_step B b s), snd (member_step B b s)))"

text \<open>
  What holds at every moment of two calls on one bucket, for the counter \<open>c0\<close> they
  started from: a call about to write the counter holds the reference of the counter and
  read \<open>c0\<close> or the present value;
  the counter is \<open>c0\<close> while neither has written, \<open>c0 + 1\<close> when one has, and
  \<open>c0 + 1\<close> or \<open>c0 + 2\<close> when both have; an alert once written stays.
\<close>

fun holds :: "string list \<Rightarrow> rat \<Rightarrow> rat \<Rightarrow> stage \<Rightarrow> bool" where
  "holds cp c0 v (Writing counter_ref x) =
     (counter_ref = cp \<and>
      (num_of (py_or x (JNum 0)) = Inr c0 \<or> num_of (py_or x (JNum 0)) = Inr v))"
| "holds cp c0 v (Raised err) = False"
| "holds cp c0 v x = True"

fun saved :: "stage \<Rightarrow> bool" where
  "saved Begin = False"
| "saved (Checked pe) = False"
| "saved (Raised err) = False"
| "saved x = True"

definition own_ok :: "member_call \<Rightarrow> rat \<Rightarrow> rat \<Rightarrow> stage \<Rightarrow> json \<Rightarrow> bool" where
  "own_ok X c0 v x t =
     (holds [COUNTS, c_phenomenon X, c_place_id X, ''counter''] c0 v x \<and>
      (saved x \<longrightarrow>
         get_path [ALERTS, c_phenomenon X, c_place_id X, ''alertForms'', c_form_id X] t
           = db_normalize (c_essential X)))"

definition accounted :: "rat \<Rightarrow> rat \<Rightarrow> bool \<Rightarrow> bool \<Rightarrow> bool" where
  "accounted c0 v da db =
     (if da \<and> db then v = c0 + 1 \<or> v = c0 + 2 else if da \<or> db then v = c0 + 1 else v = c0)"

definition concurrent_inv ::
    "member_call \<Rightarrow> member_call \<Rightarrow> rat \<Rightarrow> stage \<times> stage \<times> store \<Rightarrow> bool" where
  "concurrent_inv A B c0 cfg =
     (case cfg of (a, b, s) \<Rightarrow>
        (\<exists>v. num_of (py_or (get_path [COUNTS, c_phenomenon A, c_place_id A, ''counter''] (tree s))
                        (JNum 0)) = Inr v \<and>
             (a = Done \<or> b = Done \<longrightarrow>
                get_path [COUNTS, c_phenomenon A, c_place_id A, ''counter''] (tree s) = JNum v) \<and>
             own_ok A c0 v a (tree s) \<and> own_ok B c0 v b (tree s) \<and>
             accounted c0 v (a = Done) (b = Done)))"

subsection \<open>Concrete inputs\<close>

text \<open>
  An environment in which every alert geocodes to one place, and stores built from it:
  the time of the sweep is \<open>sweep_time\<close> (seconds), \<open>old_ms\<close> is 25 hours before it and
  \<open>young_ms\<close> one hour before it (milliseconds).
\<close>

definition kolonaki_bounds :: json where
  "kolonaki_bounds =
     JObj [(''northeast'', JObj [(''lat'', JNum 38), (''lng'', JNum 24)]),
           (''southwest'', JObj [(''lat'', JNum 37), (''lng'', JNum 23)])]"

definition test_env :: env where
  "test_env =
     \<lparr> get_location_name_and_bounds = (\<lambda>lat lng. Inr (''Kolonaki'', kolonaki_bounds)),
       sha256_hexdigest = (\<lambda>s. ''00112233445566778899aabbccddeeff''),
       py_str = (\<lambda>v. ''?''),
       athens_time = (\<lambda>t. Inr ''12:00'') \<rparr>"

definition kolonaki :: string where
  "kolonaki = ''0011223344556677''"

definition sweep_time :: rat where
  "sweep_time = 1700000000"

definition old_ms :: rat where
  "old_ms = 1699910000000"

definition young_ms :: rat where
  "young_ms = 1699996400000"

definition alert_form :: "rat \<Rightarrow> json" where
  "alert_form t =
     JObj [(''location'', JObj [(''latitude'', JNum 37), (''longitude'', JNum 23)]),
           (''criticalWeatherPhenomenon'', JStr ''FLOOD''),
           (''timestamp'', JNum t)]"

definition stored_form :: "rat \<Rightarrow> json" where
  "stored_form t =
     JObj [(''location'', JObj [(''latitude'', JNum 37), (''longitude'', JNum 23)]),
           (''timestamp'', JNum t),
           (''time'', JStr ''12:00'')]"

definition flood_tree :: "(string \<times> json) list \<Rightarrow> rat \<Rightarrow> json" where
  "flood_tree forms n =
     JObj [(ALERTS, JObj [(''FLOOD'', JObj [(kolonaki,
              JObj [(''alertForms'', JObj forms), (''bounds'', kolonaki_bounds)])])]),
           (COUNTS, JObj [(''FLOOD'', JObj [(kolonaki, JObj [(''counter'', JNum n)])])])]"

definition empty_store :: store where
  "empty_store = \<lparr> tree = JNull, ops = [] \<rparr>"

definition one_old :: store where
  "one_old = \<lparr> tree = flood_tree [(''a'', stored_form old_ms)] 1, ops = [] \<rparr>"

definition old_and_young :: store where
  "old_and_young =
     \<lparr> tree = flood_tree [(''a'', stored_form old_ms), (''b'', stored_form young_ms)] 2,
       ops = [] \<rparr>"

text \<open>
  A store whose alert sits directly under its place, where the loop of the sweep looks
  for it, and a store whose counter sits on the node of the place itself, where the purge
  reads it.
\<close>

definition flat_old :: store where
  "flat_old =
     \<lparr> tree = JObj [(ALERTS, JObj [(''FLOOD'', JObj [(kolonaki,
                       JObj [(''a'', stored_form old_ms)])])]),
                    (COUNTS, JObj [(''FLOOD'', JObj [(kolonaki, JObj [(''counter'', JNum 1)])])])],
       ops = [] \<rparr>"

definition place_counted :: store where
  "place_counted =
     \<lparr> tree = JObj [(COUNTS, JObj [(''FLOOD'', JObj [(kolonaki, JNum 3)])])], ops = [] \<rparr>"

text \<open>The two calls that the alerts \<open>a\<close> and \<open>b\<close> of the concrete inputs lead to.\<close>

definition call_a :: member_call where
  "call_a = \<lparr> c_phenomenon = ''FLOOD'', c_place_id = kolonaki, c_form_id = ''a'',
               c_essential = essential_data (alert_form old_ms) ''12:00'',
               c_bounds = kolonaki_bounds \<rparr>"

definition call_b :: member_call where
  "call_b = \<lparr> c_phenomenon = ''FLOOD'', c_place_id = kolonaki, c_form_id = ''b'',
               c_essential = essential_data (alert_form young_ms) ''12:00'',
               c_bounds = kolonaki_bounds \<rparr>"

section \<open>Properties of the store\<close>

lemma lookup_JNull [simp]: "lookup k JNull = JNull"
  by (simp add: lookup_def)

lemma get_path_JNull [simp]: "get_path p JNull = JNull"
  by (induction p) simp_all

lemma get_path_append: "get_path (p @ q) t = get_path q (get_path p t)"
  by (induction p arbitrary: t) simp_all

lemma lookup_JObj: "lookup k (JObj es) = (case map_of es k of Some v \<Rightarrow> v | None \<Rightarrow> JNull)"
  by (simp add: lookup_def)

lemma lookup_mk_obj: "lookup k (mk_obj es) = lookup k (JObj es)"
  by (simp add: mk_obj_def lookup_def)

lemma lookup_delete:
  "lookup k (mk_obj (AList.delete k' (entries t))) = (if k = k' then JNull else lookup k t)"
  by (simp add: lookup_mk_obj lookup_JObj delete_conv') (simp add: lookup_def)

lemma lookup_update:
  "lookup k (JObj (AList.update k' c (entries t))) = (if k = k' then c else lookup k t)"
  by (simp add: lookup_def update_conv')

lemma lookup_put:
  "lookup k (put (k' # ks) v t) = (if k = k' then put ks v (lookup k t) else lookup k t)"
  by (simp add: Let_def lookup_delete lookup_update)

text \<open>Reading at a prefix of the path written sees the write below it.\<close>

lemma get_put_prefix: "get_path p (put (p @ q) v t) = put q v (get_path p t)"
proof (induction p arbitrary: t)
  case Nil
  show ?case by simp
next
  case (Cons k ks)
  have "get_path (k # ks) (put ((k # ks) @ q) v t) = get_path ks (put (ks @ q) v (lookup k t))"
    by (simp add: lookup_put del: put.simps)
  then show ?case using Cons.IH by simp
qed

lemma get_put_same: "get_path p (put p v t) = v"
  using get_put_prefix [of p "[]" v t] by simp

text \<open>A write leaves every path that parts from its own as it was.\<close>

lemma get_put_unrelated: "unrelated p q \<Longrightarrow> get_path p (put q v t) = get_path p t"
proof (induction p q arbitrary: t rule: unrelated.induct)
  case (1 k ks k' ks')
  show ?case
  proof (cases "k = k'")
    case True
    with 1 have "unrelated ks ks'" by simp
    then have "get_path ks (put ks' v (lookup k t)) = get_path ks (lookup k t)" by (rule "1.IH")
    with True show ?thesis by (simp add: lookup_put del: put.simps)
  next
    case False
    then show ?thesis by (simp add: lookup_put del: put.simps)
  qed
qed simp_all

lemma put_JNull_D: "put p v t = JNull \<Longrightarrow> v = JNull"
proof (induction p arbitrary: t)
  case Nil
  then show ?case by simp
next
  case (Cons k ks)
  then show ?case by (auto simp: Let_def split: if_splits)
qed

lemma roots_differ [simp]: "ALERTS \<noteq> COUNTS" "COUNTS \<noteq> ALERTS"
  by (simp_all add: ALERTS_def COUNTS_def)

lemmas prog_defs =
  bnd_def ret_def throw_def lift_def catch_def db_get_def db_set_def db_delete_def

lemma get_below_deleted: "get_path (p @ q) (put p JNull t) = JNull"
  by (simp add: get_path_append get_put_same)

lemma unrelated_append [simp]: "unrelated (p @ x) (p @ y) = unrelated x y"
  by (induction p) simp_all

text \<open>
  From here on \<open>put\<close> and \<open>get_path\<close> are unfolded only where a concrete tree is
  evaluated; the general proofs go through the lemmas above.
\<close>

declare put.simps(2) [simp del] get_path.simps(2) [simp del]

lemmas tree_eval = get_path.simps put.simps lookup_def mk_obj_def Let_def

lemmas fixture_defs =
  test_env_def alert_form_def stored_form_def flood_tree_def kolonaki_bounds_def kolonaki_def
  empty_store_def one_old_def old_and_young_def place_counted_def flat_old_def
  sweep_time_def old_ms_def young_ms_def

subsection \<open>References\<close>

lemma split_slash_nonempty: "split_slash p \<noteq> []"
  by (induction p) (auto split: list.splits)

lemma split_slash_append:
  "split_slash (a @ CHR ''/'' # b) = split_slash a @ split_slash b"
  using split_slash_nonempty by (induction a) (auto split: list.splits)

lemma segments_append: "segments (a @ CHR ''/'' # b) = segments a @ segments b"
  by (simp add: segments_def split_slash_append)

lemma has_invalid_append:
  "has_invalid (a @ CHR ''/'' # b) = (has_invalid a \<or> has_invalid b)"
  by (simp add: has_invalid_def INVALID_PATH_CHARACTERS_def)

lemma segments_slashed: "segments (slashed ks) = concat (map segments ks)"
  by (induction ks rule: slashed.induct) (simp_all add: segments_append, simp add: segments_def)

lemma has_invalid_slashed: "has_invalid (slashed ks) = list_ex has_invalid ks"
  by (induction ks rule: slashed.induct)
     (simp_all add: has_invalid_append, simp add: has_invalid_def)

text \<open>
  The reference of an f-string: the segments of its components, one after the other,
  unless one of them holds an invalid character.
\<close>

lemma parse_slashed:
  "parse_path (slashed ks) =
     (if list_ex has_invalid ks then Inl ValueError else Inr (concat (map segments ks)))"
  by (simp add: parse_path_def segments_slashed has_invalid_slashed)

lemma split_slash_key: "filter (\<lambda>ch. ch = CHR ''/'') k = [] \<Longrightarrow> split_slash k = [k]"
  by (induction k) (auto split: if_splits)

lemma segments_key: "is_key k \<Longrightarrow> segments k = [k]"
  by (simp add: is_key_def segments_def split_slash_key)

lemma valid_key: "is_key k \<Longrightarrow> \<not> has_invalid k"
  by (simp add: is_key_def)

text \<open>A path of keys is the reference of its f-string.\<close>

lemma reference_of_keys: "list_all is_key ks \<Longrightarrow> reference (slashed ks) = ret ks"
proof -
  assume keys: "list_all is_key ks"
  then have "\<not> list_ex has_invalid ks"
    by (induction ks) (simp_all add: valid_key)
  moreover from keys have "concat (map segments ks) = ks"
    by (induction ks) (simp_all add: segments_key)
  ultimately show ?thesis
    by (simp add: reference_def parse_slashed lift_def ret_def)
qed

lemma literal_keys [simp]:
  "segments ALERTS = [ALERTS]" "segments COUNTS = [COUNTS]"
  "segments ''alertForms'' = [''alertForms'']" "segments ''bounds'' = [''bounds'']"
  "segments ''counter'' = [''counter'']"
  "\<not> has_invalid ALERTS" "\<not> has_invalid COUNTS" "\<not> has_invalid ''alertForms''"
  "\<not> has_invalid ''bounds''" "\<not> has_invalid ''counter''"
  by (simp_all add: segments_def has_invalid_def INVALID_PATH_CHARACTERS_def ALERTS_def COUNTS_def)

lemma test_keys: "is_key ''FLOOD''" "is_key kolonaki" "is_key ''a''" "is_key ''b''"
  by (simp_all add: is_key_def has_invalid_def INVALID_PATH_CHARACTERS_def kolonaki_def)

declare slashed.simps [simp del]

text \<open>
  Lines 128 to 157 raise \<open>ValueError\<close> before any write when a component of their paths
  holds an invalid character, and are \<open>writes_of_member\<close> on their references otherwise.
\<close>

lemma add_member_parsed:
  assumes "\<not> has_invalid ph" "\<not> has_invalid pid" "\<not> has_invalid fid"
  shows "add_member ph pid fid ess bnds =
     writes_of_member (ALERTS # segments ph @ segments pid) (segments fid)
       (COUNTS # segments ph @ segments pid @ [''counter'']) ess bnds"
  using assms
  by (simp add: add_member_def writes_of_member_def reference_def parse_slashed prog_defs
        fun_eq_iff)

lemma add_member_invalid:
  assumes "has_invalid ph \<or> has_invalid pid \<or> has_invalid fid"
  shows "fst (add_member ph pid fid ess bnds s) = Inl ValueError"
    and "tree (snd (add_member ph pid fid ess bnds s)) = tree s"
  using assms
  by (auto simp add: add_member_def reference_def parse_slashed prog_defs)

lemma add_member_keys:
  assumes "is_key ph" "is_key pid" "is_key fid"
  shows "add_member ph pid fid ess bnds =
     writes_of_member [ALERTS, ph, pid] [fid] [COUNTS, ph, pid, ''counter''] ess bnds"
  using assms by (simp add: add_member_parsed valid_key segments_key)

section \<open>The sweep endpoint and the validation of ingestion\<close>

text \<open>
  C9. A sweep request whose method is not POST is answered by \<open>abort(405)\<close>, a
  client-error status, and the store is left exactly as it was: its tree (alerts,
  counters, \<open>lastCleanupTimestamp\<close>, \<open>lastNumOfDeletedAlerts\<close>) and its record of calls
  are unchanged, so nothing was read and nothing written.
\<close>

theorem sweep_rejects_non_post:
  "req_method req \<noteq> ''POST'' \<Longrightarrow>
     hourly_cleanup_http req now s = (Inl (HTTPException 405), s) \<and> client_error 405"
  by (simp add: hourly_cleanup_http_def throw_def client_error_def)

theorem sweep_rejects_non_post_witness:
  "req_method \<lparr>req_method = ''GET''\<rparr> \<noteq> ''POST'' \<and>
   hourly_cleanup_http \<lparr>req_method = ''GET''\<rparr> sweep_time old_and_young
     = (Inl (HTTPException 405), old_and_young) \<and> client_error 405"
  using sweep_rejects_non_post [of "\<lparr>req_method = ''GET''\<rparr>" sweep_time old_and_young] by simp

text \<open>
  An alert event whose data is a dict without \<open>location\<close> or without
  \<open>criticalWeatherPhenomenon\<close> makes \<open>categorize_and_store_alert\<close> return normally
  with the store exactly as it was: no call on the database was made.
\<close>

lemma dict_event_without_field_ignored:
  "after ev = JObj es \<Longrightarrow>
   map_of es ''location'' = None \<or> map_of es ''criticalWeatherPhenomenon'' = None \<Longrightarrow>
   categorize_and_store_alert e ev s = (Inr Ignored, s)"
  by (auto simp: categorize_and_store_alert_def bnd_def lift_def ret_def)

text \<open>
  C8, on the event of a deleted alert form. The trigger of line 163 is
  \<open>on_value_written\<close>, which also delivers the deletion of an alert form; the data after
  the change is then \<open>None\<close>, an event that lacks both fields. The test of line 101
  stands outside the \<open>try\<close>, and \<open>'location' in None\<close> raises \<open>TypeError\<close>: the
  function does not return, it ends with that exception, which nothing catches. No
  call on the database was made, so the store is as it was.
\<close>

theorem deleted_form_event_raises:
  "categorize_and_store_alert e \<lparr>after = JNull, formID = form_id\<rparr> s = (Inl TypeError, s)"
  by (simp add: categorize_and_store_alert_def bnd_def lift_def)

section \<open>The decrements\<close>

lemma sweep_decrement_result:
  "num_of (py_or (get_path [COUNTS, p, b, ''counter''] (tree s)) (JNum 0)) = Inr c \<Longrightarrow>
   sweep_decrement p b s =
     (Inr (), s\<lparr>tree := (if max 0 (c - 1) = 0 then put [COUNTS, p, b] JNull (tree s)
                          else put [COUNTS, p, b, ''counter''] (JNum (max 0 (c - 1))) (tree s)),
               ops := ops s @ [Get [COUNTS, p, b, ''counter''],
                        if max 0 (c - 1) = 0 then Delete [COUNTS, p, b]
                        else Set [COUNTS, p, b, ''counter''] (JNum (max 0 (c - 1)))]\<rparr>)"
  by (simp add: sweep_decrement_def prog_defs)

lemma sweep_decrement_raises:
  "num_of (py_or (get_path [COUNTS, p, b, ''counter''] (tree s)) (JNum 0)) = Inl err \<Longrightarrow>
   sweep_decrement p b s = (Inl err, s\<lparr>ops := ops s @ [Get [COUNTS, p, b, ''counter'']]\<rparr>)"
  by (simp add: sweep_decrement_def prog_defs)

lemma purge_decrement_result:
  "num_of (py_or (get_path [COUNTS, p, b] (tree s)) (JNum 0)) = Inr c \<Longrightarrow>
   purge_decrement p b s =
     (Inr (), s\<lparr>tree := (if max 0 (c - 1) = 0 then put [COUNTS, p, b] JNull (tree s)
                          else put [COUNTS, p, b] (JNum (max 0 (c - 1))) (tree s)),
               ops := ops s @ [Get [COUNTS, p, b],
                        if max 0 (c - 1) = 0 then Delete [COUNTS, p, b]
                        else Set [COUNTS, p, b] (JNum (max 0 (c - 1)))]\<rparr>)"
  by (simp add: purge_decrement_def prog_defs)

lemma purge_decrement_raises:
  "num_of (py_or (get_path [COUNTS, p, b] (tree s)) (JNum 0)) = Inl err \<Longrightarrow>
   purge_decrement p b s = (Inl err, s\<lparr>ops := ops s @ [Get [COUNTS, p, b]]\<rparr>)"
  by (simp add: purge_decrement_def prog_defs)

lemma num_of_raises_not_num: "num_of (py_or v (JNum 0)) = Inl err \<Longrightarrow> v \<noteq> JNum n"
  by (auto simp: py_or_def split: if_splits)

text \<open>
  C10. Both decrements (the sweep's on \<open>.../counter\<close>, the single-alert purge's on the
  node of the place) store \<open>max(0, previous - 1)\<close>, where \<open>previous\<close> is the value read,
  or 0 when it is absent or zero, and delete the node of the place instead of writing
  when that is zero. So whatever the store held before, the counter read back after a
  decrement is never a number that is zero or negative.
\<close>

theorem decrements_never_negative:
  "(\<forall>c. num_of (py_or (get_path [COUNTS, p, b, ''counter''] (tree s)) (JNum 0)) = Inr c \<longrightarrow>
      get_path [COUNTS, p, b, ''counter''] (tree (snd (sweep_decrement p b s)))
        = (if max 0 (c - 1) = 0 then JNull else JNum (max 0 (c - 1))) \<and>
      (max 0 (c - 1) = 0 \<longrightarrow>
         get_path [COUNTS, p, b] (tree (snd (sweep_decrement p b s))) = JNull)) \<and>
   (\<forall>n. get_path [COUNTS, p, b, ''counter''] (tree (snd (sweep_decrement p b s))) = JNum n
      \<longrightarrow> 0 < n) \<and>
   (\<forall>c. num_of (py_or (get_path [COUNTS, p, b] (tree s)) (JNum 0)) = Inr c \<longrightarrow>
      get_path [COUNTS, p, b] (tree (snd (purge_decrement p b s)))
        = (if max 0 (c - 1) = 0 then JNull else JNum (max 0 (c - 1)))) \<and>
   (\<forall>n. get_path [COUNTS, p, b] (tree (snd (purge_decrement p b s))) = JNum n \<longrightarrow> 0 < n)"
proof -
  let ?cp = "[COUNTS, p, b, ''counter'']"
  let ?np = "[COUNTS, p, b]"
  have below: "get_path ?cp (put ?np JNull t) = JNull" for t
    using get_below_deleted [of ?np "[''counter'']" t] by simp
  have sweep_value: "get_path ?cp (tree (snd (sweep_decrement p b s)))
        = (if max 0 (c - 1) = 0 then JNull else JNum (max 0 (c - 1)))"
    and sweep_node:
      "max 0 (c - 1) = 0 \<longrightarrow> get_path ?np (tree (snd (sweep_decrement p b s))) = JNull"
    if "num_of (py_or (get_path ?cp (tree s)) (JNum 0)) = Inr c" for c
    using that by (simp_all add: sweep_decrement_result get_put_same below)
  have sweep_sign: "0 < n" if "get_path ?cp (tree (snd (sweep_decrement p b s))) = JNum n" for n
  proof (cases "num_of (py_or (get_path ?cp (tree s)) (JNum 0))")
    case (Inl err)
    with that show ?thesis
      by (auto simp: sweep_decrement_raises dest: num_of_raises_not_num)
  next
    case (Inr c)
    from that sweep_value [OF Inr] show ?thesis by (auto split: if_splits)
  qed
  have purge_value: "get_path ?np (tree (snd (purge_decrement p b s)))
        = (if max 0 (c - 1) = 0 then JNull else JNum (max 0 (c - 1)))"
    if "num_of (py_or (get_path ?np (tree s)) (JNum 0)) = Inr c" for c
    using that by (simp add: purge_decrement_result get_put_same)
  have purge_sign: "0 < n" if "get_path ?np (tree (snd (purge_decrement p b s))) = JNum n" for n
  proof (cases "num_of (py_or (get_path ?np (tree s)) (JNum 0))")
    case (Inl err)
    with that show ?thesis
      by (auto simp: purge_decrement_raises dest: num_of_raises_not_num)
  next
    case (Inr c)
    from that purge_value [OF Inr] show ?thesis by (auto split: if_splits)
  qed
  from sweep_value sweep_node sweep_sign purge_value purge_sign show ?thesis by blast
qed

theorem decrements_never_negative_witness:
  "num_of (py_or (get_path [COUNTS, ''FLOOD'', kolonaki, ''counter''] (tree one_old)) (JNum 0))
     = Inr 1 \<and>
   get_path [COUNTS, ''FLOOD'', kolonaki, ''counter'']
     (tree (snd (sweep_decrement ''FLOOD'' kolonaki one_old))) = JNull \<and>
   get_path [COUNTS, ''FLOOD'', kolonaki]
     (tree (snd (sweep_decrement ''FLOOD'' kolonaki one_old))) = JNull \<and>
   num_of (py_or (get_path [COUNTS, ''FLOOD'', kolonaki] (tree place_counted)) (JNum 0))
     = Inr 3 \<and>
   get_path [COUNTS, ''FLOOD'', kolonaki]
     (tree (snd (purge_decrement ''FLOOD'' kolonaki place_counted))) = JNum 2"
proof -
  have sweep:
    "num_of (py_or (get_path [COUNTS, ''FLOOD'', kolonaki, ''counter''] (tree one_old)) (JNum 0))
       = Inr 1"
    by (simp add: one_old_def flood_tree_def get_path.simps lookup_def py_or_def)
  have purge:
    "num_of (py_or (get_path [COUNTS, ''FLOOD'', kolonaki] (tree place_counted)) (JNum 0))
       = Inr 3"
    by (simp add: place_counted_def get_path.simps lookup_def py_or_def)
  from sweep purge decrements_never_negative [of "''FLOOD''" kolonaki one_old]
    decrements_never_negative [of "''FLOOD''" kolonaki place_counted]
  show ?thesis by simp
qed

section \<open>Removal of a member by the sweep\<close>


lemma one_old_counter:
  "num_of (py_or (get_path [COUNTS, ''FLOOD'', kolonaki, ''counter''] (tree one_old)) (JNum 0))
     = Inr 1"
  by (simp add: one_old_def flood_tree_def get_path.simps lookup_def py_or_def)
















lemma flat_old_bucket:
  "get_path [ALERTS, ''FLOOD'', kolonaki] (tree flat_old) = JObj [(''a'', stored_form old_ms)]"
  by (simp add: flat_old_def get_path.simps lookup_def)




section \<open>The entry points on the alerts that ingestion stores\<close>

lemmas ingest_defs =
  categorize_and_store_alert_def process_alert_def prepare_alert_def add_member_keys
  writes_of_member_def is_key_def has_invalid_def INVALID_PATH_CHARACTERS_def
  and_then_def get_short_place_id_def essential_data_def py_or_def fstr_def

text \<open>
  The stores \<open>one_old\<close> and \<open>old_and_young\<close> are what ingestion writes: the first alert
  into the empty store, then the second.
\<close>

lemma ingestion_writes_one_old:
  "tree (snd (categorize_and_store_alert test_env
      \<lparr>after = alert_form old_ms, formID = ''a''\<rparr> empty_store)) = tree one_old"
  by (simp add: ingest_defs prog_defs fixture_defs get_path.simps put.simps lookup_def mk_obj_def)

lemma ingestion_writes_old_and_young:
  "tree (snd (categorize_and_store_alert test_env
      \<lparr>after = alert_form young_ms, formID = ''b''\<rparr> one_old)) = tree old_and_young"
  by (simp add: ingest_defs prog_defs fixture_defs get_path.simps put.simps lookup_def mk_obj_def)

text \<open>
  C3, on the store of the claim's own example: a bucket with an alert 25 hours old and an
  alert one hour old, counter 2. The loop of line 191 runs over the children of the
  place, \<open>alertForms\<close> and \<open>bounds\<close>, not over the alerts under \<open>alertForms\<close>, so
  \<open>alert_data['timestamp']\<close> raises \<open>KeyError\<close> on the first of them. The request ends
  with that exception: the old alert is still there, the counter is still 2, and the
  cleanup time is not recorded.
\<close>

theorem sweep_raises_on_stored_alerts:
  "hourly_cleanup_http \<lparr>req_method = ''POST''\<rparr> sweep_time old_and_young
     = (Inl (KeyError (JStr ''timestamp'')), old_and_young\<lparr>ops := [Get [ALERTS]]\<rparr>)"
  by (simp add: hourly_cleanup_http_def sweep_phenomenon_def sweep_place_def sweep_alert_def
       prog_defs fixture_defs py_or_def get_path.simps lookup_def)

text \<open>
  C5, on the same store: the purge of the stored alert \<open>a\<close> answers \<open>Alert not found\<close>
  and changes nothing, although the alert is there. Line 272 looks the id up among the
  children of the place (\<open>alertForms\<close>, \<open>bounds\<close>), not among the alerts.
\<close>

theorem purge_of_stored_alert_not_found:
  "delete_alert_by_phenomenon_and_location test_env
     \<lparr>data = JObj [(''phenomenon'', JStr ''FLOOD''), (''place'', JStr kolonaki),
                   (''alertID'', JStr ''a'')]\<rparr> old_and_young
     = (Inr (Failure ''Alert not found''), old_and_young\<lparr>ops := [Get [ALERTS]]\<rparr>) \<and>
   get_path [ALERTS, ''FLOOD'', kolonaki, ''alertForms'', ''a''] (tree old_and_young)
     = stored_form old_ms"
  by (simp add: delete_alert_by_phenomenon_and_location_def
       prog_defs fixture_defs py_or_def get_path.simps lookup_def)

section \<open>The purge of a bucket: \<open>delete_alerts_by_location\<close>\<close>

lemma typed_child:
  "list_all (\<lambda>kv. is_dict (snd kv)) es \<Longrightarrow> map_of es p = Some v \<Longrightarrow> \<exists>es'. v = JObj es'"
proof -
  assume "list_all (\<lambda>kv. is_dict (snd kv)) es" and "map_of es p = Some v"
  then have "is_dict v" by (auto simp: list_all_iff dest!: map_of_SomeD)
  then show ?thesis by (cases v) simp_all
qed

lemma purge_bucket_outcome:
  assumes "alerts_typed (tree s)"
  shows "delete_alerts_by_location e (bucket_request p b) s =
     (if \<not> phenomenon_exists (tree s) p
      then (Inr (Failure ''Phenomenon not found''), s\<lparr>ops := ops s @ [Get [ALERTS]]\<rparr>)
      else if \<not> bucket_exists (tree s) p b
      then (Inr (Failure ''Place not found''), s\<lparr>ops := ops s @ [Get [ALERTS]]\<rparr>)
      else (Inr Success,
            s\<lparr>tree := put [COUNTS, p, b] JNull (put [ALERTS, p, b] JNull (tree s)),
              ops := ops s @ [Get [ALERTS], Delete [ALERTS, p, b], Delete [COUNTS, p, b]]\<rparr>))"
proof (cases "get_path [ALERTS] (tree s)")
  case JNull
  then show ?thesis
    by (simp add: delete_alerts_by_location_def bucket_request_def prog_defs py_or_def
          phenomenon_exists_def has_key_def)
next
  case (JObj es)
  show ?thesis
  proof (cases "map_of es p")
    case None
    with JObj show ?thesis
      by (cases es) (simp_all add: delete_alerts_by_location_def bucket_request_def prog_defs
          py_or_def phenomenon_exists_def has_key_def)
  next
    case (Some v)
    with JObj assms obtain es' where v: "v = JObj es'"
      by (auto simp: alerts_typed_def dest: typed_child)
    from Some have nonempty: "es \<noteq> []" by auto
    have node: "get_path [ALERTS, p] (tree s) = v"
      using get_path_append [of "[ALERTS]" "[p]" "tree s"] JObj Some
      by (simp add: get_path.simps lookup_def)
    show ?thesis
      using JObj Some v nonempty node
      by (simp add: delete_alerts_by_location_def bucket_request_def prog_defs py_or_def
          phenomenon_exists_def bucket_exists_def has_key_def fstr_def)
  qed
qed (use assms in \<open>simp_all add: alerts_typed_def\<close>)

lemma entries_mk_obj [simp]: "entries (mk_obj es) = es"
  by (simp add: mk_obj_def)

lemma has_key_delete:
  "has_key k (mk_obj (AList.delete k' es)) = (k \<noteq> k' \<and> has_key k (JObj es))"
  by (simp add: has_key_def delete_conv')

lemma has_key_JNull [simp]: "\<not> has_key k JNull"
  by (simp add: has_key_def)

lemma has_key_entries: "has_key k (JObj (entries v)) = has_key k v"
  by (simp add: has_key_def)

lemma list_all_delete: "list_all P es \<Longrightarrow> list_all P (AList.delete k es)"
  by (induction es) auto

lemma list_all_update: "list_all P es \<Longrightarrow> P (k, v) \<Longrightarrow> list_all P (AList.update k v es)"
  by (induction es) auto

lemma purged_bucket_absent:
  "\<not> bucket_exists (put [COUNTS, p, b] JNull (put [ALERTS, p, b] JNull t)) p b"
proof -
  let ?t' = "put [COUNTS, p, b] JNull (put [ALERTS, p, b] JNull t)"
  have "get_path [ALERTS, p] ?t' = put [b] JNull (get_path [ALERTS, p] t)"
    using get_put_prefix [of "[ALERTS, p]" "[b]" JNull t] by (simp add: get_put_unrelated)
  also have "\<dots> = mk_obj (AList.delete b (entries (get_path [ALERTS, p] t)))"
    by (simp add: put.simps)
  finally show ?thesis
    by (simp add: bucket_exists_def has_key_delete)
qed

lemma mk_obj_cases: "mk_obj es = JNull \<or> mk_obj es = JObj es"
  by (simp add: mk_obj_def)

lemma purged_alerts_typed:
  assumes "alerts_typed t"
  shows "alerts_typed (put [COUNTS, p, b] JNull (put [ALERTS, p, b] JNull t))"
proof -
  let ?t' = "put [COUNTS, p, b] JNull (put [ALERTS, p, b] JNull t)"
  let ?r = "get_path [ALERTS] t"
  let ?c = "mk_obj (AList.delete b (entries (lookup p ?r)))"
  let ?P = "\<lambda>kv. is_dict (snd kv)"
  have root: "get_path [ALERTS] ?t' = put [p, b] JNull ?r"
    using get_put_prefix [of "[ALERTS]" "[p, b]" JNull t] by (simp add: get_put_unrelated)
  have typed: "list_all ?P (entries ?r)"
    using assms by (cases ?r) (simp_all add: alerts_typed_def)
  have shape: "put [p, b] JNull ?r =
      (if ?c = JNull then mk_obj (AList.delete p (entries ?r))
       else JObj (AList.update p ?c (entries ?r)))"
    by (simp add: put.simps Let_def)
  show ?thesis
  proof (cases "?c = JNull")
    case True
    with shape mk_obj_cases [of "AList.delete p (entries ?r)"] typed show ?thesis
      by (auto simp: alerts_typed_def root list_all_delete)
  next
    case False
    with mk_obj_cases [of "AList.delete b (entries (lookup p ?r))"] have "is_dict ?c" by auto
    with shape False typed show ?thesis
      by (simp add: alerts_typed_def root list_all_update)
  qed
qed

text \<open>
  C7. On a store whose alerts tree has its layout, \<open>delete_alerts_by_location\<close>
  answers \<open>Phenomenon not found\<close> when the phenomenon is no key of the tree and
  \<open>Place not found\<close> when the phenomenon is there but the place is not, and in both
  cases only reads: the tree is unchanged. When the bucket exists, the answer is success
  and the tree is the one before with the bucket deleted and the node of its counter
  deleted: the two are gone, and every path that parts from both reads as before. The
  same call made again answers one of the two not-found messages and leaves the tree as
  the first call left it.
\<close>

theorem purge_bucket_reports_and_is_idempotent:
  assumes "alerts_typed (tree s)"
  shows
    "(\<not> phenomenon_exists (tree s) p \<longrightarrow>
        delete_alerts_by_location e (bucket_request p b) s
          = (Inr (Failure ''Phenomenon not found''), s\<lparr>ops := ops s @ [Get [ALERTS]]\<rparr>)) \<and>
     (phenomenon_exists (tree s) p \<and> \<not> bucket_exists (tree s) p b \<longrightarrow>
        delete_alerts_by_location e (bucket_request p b) s
          = (Inr (Failure ''Place not found''), s\<lparr>ops := ops s @ [Get [ALERTS]]\<rparr>)) \<and>
     (bucket_exists (tree s) p b \<longrightarrow>
        fst (delete_alerts_by_location e (bucket_request p b) s) = Inr Success \<and>
        tree (snd (delete_alerts_by_location e (bucket_request p b) s))
          = put [COUNTS, p, b] JNull (put [ALERTS, p, b] JNull (tree s)) \<and>
        ops (snd (delete_alerts_by_location e (bucket_request p b) s))
          = ops s @ [Get [ALERTS], Delete [ALERTS, p, b], Delete [COUNTS, p, b]] \<and>
        (\<forall>q. unrelated q [ALERTS, p, b] \<and> unrelated q [COUNTS, p, b] \<longrightarrow>
           get_path q (tree (snd (delete_alerts_by_location e (bucket_request p b) s)))
             = get_path q (tree s)) \<and>
        get_path [ALERTS, p, b]
          (tree (snd (delete_alerts_by_location e (bucket_request p b) s))) = JNull \<and>
        get_path [COUNTS, p, b]
          (tree (snd (delete_alerts_by_location e (bucket_request p b) s))) = JNull \<and>
        fst (delete_alerts_by_location e (bucket_request p b)
               (snd (delete_alerts_by_location e (bucket_request p b) s)))
          \<in> {Inr (Failure ''Phenomenon not found''), Inr (Failure ''Place not found'')} \<and>
        tree (snd (delete_alerts_by_location e (bucket_request p b)
               (snd (delete_alerts_by_location e (bucket_request p b) s))))
          = tree (snd (delete_alerts_by_location e (bucket_request p b) s)))"
proof (intro conjI impI)
  assume "\<not> phenomenon_exists (tree s) p"
  then show "delete_alerts_by_location e (bucket_request p b) s
      = (Inr (Failure ''Phenomenon not found''), s\<lparr>ops := ops s @ [Get [ALERTS]]\<rparr>)"
    by (simp add: purge_bucket_outcome [OF assms])
next
  assume "phenomenon_exists (tree s) p \<and> \<not> bucket_exists (tree s) p b"
  then show "delete_alerts_by_location e (bucket_request p b) s
      = (Inr (Failure ''Place not found''), s\<lparr>ops := ops s @ [Get [ALERTS]]\<rparr>)"
    by (simp add: purge_bucket_outcome [OF assms])
next
  assume there: "bucket_exists (tree s) p b"
  let ?t' = "put [COUNTS, p, b] JNull (put [ALERTS, p, b] JNull (tree s))"
  let ?s' = "snd (delete_alerts_by_location e (bucket_request p b) s)"
  from there have first: "delete_alerts_by_location e (bucket_request p b) s =
      (Inr Success, s\<lparr>tree := ?t',
         ops := ops s @ [Get [ALERTS], Delete [ALERTS, p, b], Delete [COUNTS, p, b]]\<rparr>)"
    by (simp add: purge_bucket_outcome [OF assms] bucket_exists_def)
  then have tree': "tree ?s' = ?t'" by simp
  from first show "fst (delete_alerts_by_location e (bucket_request p b) s) = Inr Success"
    by simp
  from tree' show "tree ?s' = ?t'" .
  from first show "ops ?s' = ops s @ [Get [ALERTS], Delete [ALERTS, p, b], Delete [COUNTS, p, b]]"
    by simp
  show "\<forall>q. unrelated q [ALERTS, p, b] \<and> unrelated q [COUNTS, p, b] \<longrightarrow>
      get_path q (tree ?s') = get_path q (tree s)"
    by (simp add: tree' get_put_unrelated)
  show "get_path [ALERTS, p, b] (tree ?s') = JNull"
    by (simp add: tree' get_put_unrelated get_put_same)
  show "get_path [COUNTS, p, b] (tree ?s') = JNull"
    by (simp add: tree' get_put_same)
  have typed': "alerts_typed (tree ?s')"
    by (simp add: tree' purged_alerts_typed [OF assms])
  have gone: "\<not> bucket_exists (tree ?s') p b"
    by (simp add: tree' purged_bucket_absent)
  from gone
  show "fst (delete_alerts_by_location e (bucket_request p b) ?s')
      \<in> {Inr (Failure ''Phenomenon not found''), Inr (Failure ''Place not found'')}"
    by (simp add: purge_bucket_outcome [OF typed'])
  from gone
  show "tree (snd (delete_alerts_by_location e (bucket_request p b) ?s')) = tree ?s'"
    by (simp add: purge_bucket_outcome [OF typed'])
qed

lemma old_and_young_alerts:
  "get_path [ALERTS] (tree old_and_young) =
     JObj [(''FLOOD'', JObj [(kolonaki,
        JObj [(''alertForms'', JObj [(''a'', stored_form old_ms), (''b'', stored_form young_ms)]),
              (''bounds'', kolonaki_bounds)])])]"
  by (simp add: old_and_young_def flood_tree_def get_path.simps lookup_def)

theorem purge_bucket_reports_and_is_idempotent_witness:
  "alerts_typed (tree empty_store) \<and> \<not> phenomenon_exists (tree empty_store) ''FLOOD'' \<and>
   delete_alerts_by_location test_env (bucket_request ''FLOOD'' kolonaki) empty_store
     = (Inr (Failure ''Phenomenon not found''),
        empty_store\<lparr>ops := ops empty_store @ [Get [ALERTS]]\<rparr>) \<and>
   alerts_typed (tree old_and_young) \<and> phenomenon_exists (tree old_and_young) ''FLOOD'' \<and>
   \<not> bucket_exists (tree old_and_young) ''FLOOD'' ''nowhere'' \<and>
   delete_alerts_by_location test_env (bucket_request ''FLOOD'' ''nowhere'') old_and_young
     = (Inr (Failure ''Place not found''),
        old_and_young\<lparr>ops := ops old_and_young @ [Get [ALERTS]]\<rparr>) \<and>
   bucket_exists (tree old_and_young) ''FLOOD'' kolonaki \<and>
   fst (delete_alerts_by_location test_env (bucket_request ''FLOOD'' kolonaki) old_and_young)
     = Inr Success \<and>
   tree (snd (delete_alerts_by_location test_env (bucket_request ''FLOOD'' kolonaki)
        old_and_young))
     = put [COUNTS, ''FLOOD'', kolonaki] JNull
         (put [ALERTS, ''FLOOD'', kolonaki] JNull (tree old_and_young)) \<and>
   unrelated [COUNTS, ''FLOOD'', ''nowhere''] [ALERTS, ''FLOOD'', kolonaki] \<and>
   unrelated [COUNTS, ''FLOOD'', ''nowhere''] [COUNTS, ''FLOOD'', kolonaki] \<and>
   get_path [COUNTS, ''FLOOD'', ''nowhere'']
     (tree (snd (delete_alerts_by_location test_env (bucket_request ''FLOOD'' kolonaki)
        old_and_young)))
     = get_path [COUNTS, ''FLOOD'', ''nowhere''] (tree old_and_young) \<and>
   get_path [ALERTS, ''FLOOD'', kolonaki]
     (tree (snd (delete_alerts_by_location test_env (bucket_request ''FLOOD'' kolonaki)
        old_and_young))) = JNull"
proof -
  have empty: "alerts_typed (tree empty_store)" "\<not> phenomenon_exists (tree empty_store) ''FLOOD''"
    by (simp_all add: alerts_typed_def phenomenon_exists_def empty_store_def)
  have flood: "get_path [ALERTS, ''FLOOD''] (tree old_and_young) =
      JObj [(kolonaki,
        JObj [(''alertForms'', JObj [(''a'', stored_form old_ms), (''b'', stored_form young_ms)]),
              (''bounds'', kolonaki_bounds)])]"
    by (simp add: old_and_young_def flood_tree_def get_path.simps lookup_def)
  have typed: "alerts_typed (tree old_and_young)"
    by (simp add: alerts_typed_def old_and_young_alerts)
  have phen: "phenomenon_exists (tree old_and_young) ''FLOOD''"
    by (simp add: phenomenon_exists_def old_and_young_alerts has_key_def)
  have nowhere: "\<not> bucket_exists (tree old_and_young) ''FLOOD'' ''nowhere''"
    by (simp add: bucket_exists_def flood has_key_def kolonaki_def)
  have here: "bucket_exists (tree old_and_young) ''FLOOD'' kolonaki"
    by (simp add: bucket_exists_def phen flood has_key_def)
  have parts: "unrelated [COUNTS, ''FLOOD'', ''nowhere''] [ALERTS, ''FLOOD'', kolonaki]"
    "unrelated [COUNTS, ''FLOOD'', ''nowhere''] [COUNTS, ''FLOOD'', kolonaki]"
    by (simp_all add: kolonaki_def)
  let ?purged = "snd (delete_alerts_by_location test_env (bucket_request ''FLOOD'' kolonaki)
      old_and_young)"
  from empty(2) purge_bucket_reports_and_is_idempotent [OF empty(1), of "''FLOOD''" test_env kolonaki]
  have no_phenomenon:
    "delete_alerts_by_location test_env (bucket_request ''FLOOD'' kolonaki) empty_store
       = (Inr (Failure ''Phenomenon not found''),
          empty_store\<lparr>ops := ops empty_store @ [Get [ALERTS]]\<rparr>)"
    by blast
  from phen nowhere
    purge_bucket_reports_and_is_idempotent [OF typed, of "''FLOOD''" test_env "''nowhere''"]
  have no_place:
    "delete_alerts_by_location test_env (bucket_request ''FLOOD'' ''nowhere'') old_and_young
       = (Inr (Failure ''Place not found''),
          old_and_young\<lparr>ops := ops old_and_young @ [Get [ALERTS]]\<rparr>)"
    by blast
  from here purge_bucket_reports_and_is_idempotent [OF typed, of "''FLOOD''" test_env kolonaki]
  have success:
      "fst (delete_alerts_by_location test_env (bucket_request ''FLOOD'' kolonaki) old_and_young)
         = Inr Success"
    and exact: "tree ?purged = put [COUNTS, ''FLOOD'', kolonaki] JNull
         (put [ALERTS, ''FLOOD'', kolonaki] JNull (tree old_and_young))"
    and frame: "\<forall>q. unrelated q [ALERTS, ''FLOOD'', kolonaki] \<and>
         unrelated q [COUNTS, ''FLOOD'', kolonaki] \<longrightarrow>
         get_path q (tree ?purged) = get_path q (tree old_and_young)"
    and gone: "get_path [ALERTS, ''FLOOD'', kolonaki] (tree ?purged) = JNull"
    by blast+
  from frame parts have elsewhere:
    "get_path [COUNTS, ''FLOOD'', ''nowhere''] (tree ?purged)
       = get_path [COUNTS, ''FLOOD'', ''nowhere''] (tree old_and_young)"
    by blast
  from empty typed phen nowhere here parts no_phenomenon no_place success exact elsewhere gone
  show ?thesis by blast
qed

section \<open>The counter and the members of a bucket under ingestion\<close>

lemma normalize_essential: "db_normalize (essential_data af time) \<noteq> JNull"
  by (simp add: essential_data_def mk_obj_def)

lemma and_then_Inr: "and_then r f = Inr y \<Longrightarrow> \<exists>a. r = Inr a \<and> f a = Inr y"
  by (cases r) (simp_all add: and_then_def)

lemma subscript_Inr_dict: "subscript c k = Inr v \<Longrightarrow> \<exists>es. c = JObj es"
  by (cases c) simp_all

lemma get_short_place_id_dict: "get_short_place_id e place bounds = Inr pid \<Longrightarrow> bounds \<noteq> JNull"
  by (auto simp: get_short_place_id_def dest!: and_then_Inr subscript_Inr_dict)

lemma prepare_alert_Inr:
  assumes "prepare_alert e ev = Inr (ph, pid, ess, bnds)"
  shows "bnds \<noteq> JNull" and "\<exists>time. ess = essential_data (after ev) time"
  using assms
  by (auto simp: prepare_alert_def dest!: and_then_Inr get_short_place_id_dict split: prod.splits)

lemma essential_not_null: "essential_data af time \<noteq> JNull"
  by (simp add: essential_data_def)

text \<open>
  The writes of lines 131 to 157 on their references: a place under the alerts, a counter
  under the counts.
\<close>

lemma writes_of_member_tree:
  assumes "ess \<noteq> JNull" and "bnds \<noteq> JNull"
    and "num_of (py_or (get_path (COUNTS # cr) (tree s)) (JNum 0)) = Inr c"
  shows "fst (writes_of_member (ALERTS # r) f (COUNTS # cr) ess bnds s) = Inr ()"
    and "tree (snd (writes_of_member (ALERTS # r) f (COUNTS # cr) ess bnds s))
           = put (COUNTS # cr) (JNum (c + 1)) (alert_written (ALERTS # r) f ess bnds (tree s))"
  using assms
  by (simp_all add: writes_of_member_def prog_defs alert_written_def get_put_unrelated)

lemma writes_of_member_frame:
  assumes "unrelated q (ALERTS # r @ ''alertForms'' # f)"
    and "unrelated q (ALERTS # r @ [''bounds''])"
    and "unrelated q (COUNTS # cr)"
  shows "get_path q (tree (snd (writes_of_member (ALERTS # r) f (COUNTS # cr) ess bnds s)))
           = get_path q (tree s)"
  using assms
  by (auto simp: writes_of_member_def prog_defs get_put_unrelated split: sum.splits if_splits)

lemma writes_of_member_Inr:
  "writes_of_member (ALERTS # r) f (COUNTS # cr) ess bnds s = (Inr (), s1) \<Longrightarrow>
     \<exists>c. num_of (py_or (get_path (COUNTS # cr) (tree s)) (JNum 0)) = Inr c"
  by (auto simp: writes_of_member_def prog_defs get_put_unrelated split: sum.splits if_splits)

lemma categorize_tree:
  "tree (snd (categorize_and_store_alert e ev s)) = tree s \<or>
   (\<exists>ph pid ess bnds. prepare_alert e ev = Inr (ph, pid, ess, bnds) \<and>
      tree (snd (categorize_and_store_alert e ev s))
        = tree (snd (add_member ph pid (formID ev) ess bnds s)))"
  by (auto simp: categorize_and_store_alert_def process_alert_def bnd_def lift_def ret_def
        catch_def split: sum.splits prod.splits if_splits)

lemma categorize_Stored_iff:
  "categorize_and_store_alert e ev s = (Inr Stored, s1) \<longleftrightarrow>
     py_in (JStr ''location'') (after ev) = Inr True \<and>
     py_in (JStr ''criticalWeatherPhenomenon'') (after ev) = Inr True \<and>
     (\<exists>ph pid ess bnds. prepare_alert e ev = Inr (ph, pid, ess, bnds) \<and>
        add_member ph pid (formID ev) ess bnds s = (Inr (), s1))"
  by (auto simp: categorize_and_store_alert_def process_alert_def bnd_def lift_def ret_def
        catch_def split: sum.splits prod.splits if_splits)

lemma put_leaf: "v \<noteq> JNull \<Longrightarrow> put [k] v t = JObj (AList.update k v (entries t))"
  by (simp add: put.simps)

lemma forms_after_alert_written:
  assumes "db_normalize ess \<noteq> JNull"
  shows "get_path [ALERTS, ph, pid, ''alertForms'']
           (alert_written [ALERTS, ph, pid] [fid] ess bnds t)
     = JObj (AList.update fid (db_normalize ess)
              (entries (get_path [ALERTS, ph, pid, ''alertForms''] t)))"
proof -
  have "get_path [ALERTS, ph, pid, ''alertForms'']
          (put [ALERTS, ph, pid, ''alertForms'', fid] (db_normalize ess) t)
        = put [fid] (db_normalize ess) (get_path [ALERTS, ph, pid, ''alertForms''] t)"
    using get_put_prefix [of "[ALERTS, ph, pid, ''alertForms'']" "[fid]" "db_normalize ess" t]
    by simp
  with assms show ?thesis
    by (simp add: alert_written_def get_put_unrelated put_leaf)
qed

lemma member_count_insert:
  "fid \<notin> set (map fst es) \<Longrightarrow>
     length (remdups (map fst (AList.update fid v es))) = Suc (length (remdups (map fst es)))"
proof -
  assume new: "fid \<notin> set (map fst es)"
  have "set (map fst (AList.update fid v es)) = insert fid (set (map fst es))"
    using dom_update [of fid v es] by simp
  with new show ?thesis
    by (simp add: length_remdups_card_conv)
qed

lemma counter_matches_value:
  assumes "counter_matches t p b"
  shows "num_of (py_or (get_path [COUNTS, p, b, ''counter''] t) (JNum 0))
           = Inr (of_nat (member_count t p b))"
  using assms
  by (cases "get_path [COUNTS, p, b, ''counter''] t") (auto simp: counter_matches_def py_or_def)

lemma add_member_keeps_match:
  assumes inv: "counter_matches (tree s) ph pid"
    and new: "fid \<notin> set (member_ids (tree s) ph pid)"
    and keys: "is_key ph" "is_key pid" "is_key fid"
    and ess: "ess \<noteq> JNull" "db_normalize ess \<noteq> JNull" and bnds: "bnds \<noteq> JNull"
  shows "counter_matches (tree (snd (add_member ph pid fid ess bnds s))) ph pid"
proof -
  let ?n = "member_count (tree s) ph pid"
  let ?t' = "tree (snd (add_member ph pid fid ess bnds s))"
  have t': "?t' = put [COUNTS, ph, pid, ''counter''] (JNum (of_nat ?n + 1))
               (alert_written [ALERTS, ph, pid] [fid] ess bnds (tree s))"
    unfolding add_member_keys [OF keys]
    by (rule writes_of_member_tree(2) [OF ess(1) bnds counter_matches_value [OF inv]])
  have counter: "get_path [COUNTS, ph, pid, ''counter''] ?t' = JNum (of_nat ?n + 1)"
    by (simp add: t' get_put_same)
  have "get_path [ALERTS, ph, pid, ''alertForms''] ?t'
      = JObj (AList.update fid (db_normalize ess)
              (entries (get_path [ALERTS, ph, pid, ''alertForms''] (tree s))))"
    by (simp add: t' get_put_unrelated forms_after_alert_written [OF ess(2)])
  then have "member_count ?t' ph pid = Suc ?n"
    using new by (simp add: member_count_def member_ids_def member_count_insert)
  with counter show ?thesis
    by (simp add: counter_matches_def)
qed

lemma counter_matches_reads:
  assumes "get_path [ALERTS, p, b, ''alertForms''] t' = get_path [ALERTS, p, b, ''alertForms''] t"
    and "get_path [COUNTS, p, b, ''counter''] t' = get_path [COUNTS, p, b, ''counter''] t"
  shows "counter_matches t' p b = counter_matches t p b"
proof -
  from assms(1) have "member_count t' p b = member_count t p b"
    by (simp add: member_count_def member_ids_def)
  with assms(2) show ?thesis
    by (simp add: counter_matches_def)
qed

lemma add_member_other_bucket:
  assumes other: "p \<noteq> ph \<or> b \<noteq> pid" and keys: "is_key ph" "is_key pid" "is_key fid"
  shows "counter_matches (tree (snd (add_member ph pid fid ess bnds s))) p b
           = counter_matches (tree s) p b"
proof -
  have "get_path [ALERTS, p, b, ''alertForms''] (tree (snd (add_member ph pid fid ess bnds s)))
      = get_path [ALERTS, p, b, ''alertForms''] (tree s)"
    unfolding add_member_keys [OF keys]
    using other by (intro writes_of_member_frame) auto
  moreover
  have "get_path [COUNTS, p, b, ''counter''] (tree (snd (add_member ph pid fid ess bnds s)))
      = get_path [COUNTS, p, b, ''counter''] (tree s)"
    unfolding add_member_keys [OF keys]
    using other by (intro writes_of_member_frame) auto
  ultimately show ?thesis
    by (rule counter_matches_reads)
qed

lemma purge_bucket_tree:
  "tree (snd (delete_alerts_by_location e req s)) = tree s \<or>
   (\<exists>p b. tree (snd (delete_alerts_by_location e req s))
      = put [COUNTS, p, b] JNull (put [ALERTS, p, b] JNull (tree s)))"
  by (auto simp: delete_alerts_by_location_def prog_defs split: sum.splits if_splits)

lemma purged_counter_matches:
  assumes "counter_matches t p b"
  shows "counter_matches (put [COUNTS, p', b'] JNull (put [ALERTS, p', b'] JNull t)) p b"
proof (cases "p = p' \<and> b = b'")
  case True
  let ?t' = "put [COUNTS, p, b] JNull (put [ALERTS, p, b] JNull t)"
  have "get_path [ALERTS, p, b, ''alertForms''] ?t' = JNull"
    using get_below_deleted [of "[ALERTS, p, b]" "[''alertForms'']" t]
    by (simp add: get_put_unrelated)
  moreover have "get_path [COUNTS, p, b, ''counter''] ?t' = JNull"
    using get_below_deleted [of "[COUNTS, p, b]" "[''counter'']"] by simp
  ultimately show ?thesis
    using True by (simp add: counter_matches_def member_count_def member_ids_def)
next
  case False
  then have "counter_matches (put [COUNTS, p', b'] JNull (put [ALERTS, p', b'] JNull t)) p b
      = counter_matches t p b"
    by (intro counter_matches_reads) (auto simp: get_put_unrelated)
  with assms show ?thesis by simp
qed

lemma ingestion_keeps_match:
  assumes inv: "counter_matches (tree s) p b" and new: "new_to_bucket e ev (tree s)"
    and keyed: "keyed e ev"
  shows "counter_matches (tree (snd (categorize_and_store_alert e ev s))) p b"
  using categorize_tree [of e ev s]
proof (elim disjE exE conjE)
  assume "tree (snd (categorize_and_store_alert e ev s)) = tree s"
  with inv show ?thesis by simp
next
  fix ph pid ess bnds
  assume prep: "prepare_alert e ev = Inr (ph, pid, ess, bnds)"
    and t': "tree (snd (categorize_and_store_alert e ev s))
               = tree (snd (add_member ph pid (formID ev) ess bnds s))"
  from prepare_alert_Inr [OF prep] obtain time
    where bnds: "bnds \<noteq> JNull" and ess: "ess = essential_data (after ev) time" by blast
  from keyed prep have keys: "is_key ph" "is_key pid" "is_key (formID ev)"
    by (simp_all add: keyed_def)
  show ?thesis
  proof (cases "p = ph \<and> b = pid")
    case True
    from new prep have "formID ev \<notin> set (member_ids (tree s) ph pid)"
      by (simp add: new_to_bucket_def)
    with inv True bnds keys show ?thesis
      by (simp add: t' ess add_member_keeps_match essential_not_null normalize_essential)
  next
    case False
    with inv keys show ?thesis
      by (simp add: t' add_member_other_bucket)
  qed
qed

lemma purge_keeps_match:
  assumes "counter_matches (tree s) p b"
  shows "counter_matches (tree (snd (delete_alerts_by_location e req s))) p b"
  using purge_bucket_tree [of e req s] assms
  by (auto simp: purged_counter_matches)

text \<open>
  C1, amended. For every bucket: if its counter matches its members, and each ingestion of
  a sequence of ingestions and bucket purges puts keys into its paths (a phenomenon, a
  place id and a form id that are not empty and hold no \<open>/\<close> and no character that
  \<open>db.reference\<close> refuses) and brings an id that is new to its bucket at that moment,
  then the counter matches the members after the sequence. (The sweep and the purge of a
  single alert are not part of the sequences.)
\<close>

theorem counter_matches_members_after_new_ids:
  "counter_matches (tree s) p b \<Longrightarrow> all_new e acts s \<Longrightarrow>
     counter_matches (tree (run e acts s)) p b"
proof (induction acts arbitrary: s)
  case Nil
  then show ?case by simp
next
  case (Cons a acts)
  show ?case
  proof (cases a)
    case (Ingest ev)
    with Cons.prems have "counter_matches (tree (perform e a s)) p b"
      by (simp add: ingestion_keeps_match)
    moreover from Ingest Cons.prems have "all_new e acts (perform e a s)" by simp
    ultimately show ?thesis by (simp add: Cons.IH)
  next
    case (PurgeBucket req)
    with Cons.prems have "counter_matches (tree (perform e a s)) p b"
      by (simp add: purge_keeps_match)
    moreover from PurgeBucket Cons.prems have "all_new e acts (perform e a s)" by simp
    ultimately show ?thesis by (simp add: Cons.IH)
  qed
qed

lemma prepare_test_env:
  "prepare_alert test_env \<lparr>after = alert_form t, formID = fid\<rparr>
     = Inr (''FLOOD'', kolonaki, essential_data (alert_form t) ''12:00'', kolonaki_bounds)"
  by (simp add: prepare_alert_def and_then_def get_short_place_id_def test_env_def
        alert_form_def kolonaki_bounds_def kolonaki_def fstr_def)

lemma normalize_test_values:
  "db_normalize (essential_data (alert_form t) ''12:00'') = stored_form t"
  "db_normalize kolonaki_bounds = kolonaki_bounds"
  by (simp_all add: essential_data_def alert_form_def stored_form_def kolonaki_bounds_def
        lookup_def mk_obj_def)

lemma ingestion_test_env:
  assumes "num_of (py_or (get_path [COUNTS, ''FLOOD'', kolonaki, ''counter''] (tree s)) (JNum 0))
             = Inr c"
    and "is_key fid"
  shows "fst (categorize_and_store_alert test_env \<lparr>after = alert_form t, formID = fid\<rparr> s)
           = Inr Stored"
    and "tree (snd (categorize_and_store_alert test_env \<lparr>after = alert_form t, formID = fid\<rparr> s))
           = put [COUNTS, ''FLOOD'', kolonaki, ''counter''] (JNum (c + 1))
               (alert_written [ALERTS, ''FLOOD'', kolonaki] [fid]
                  (essential_data (alert_form t) ''12:00'') kolonaki_bounds (tree s))"
proof -
  let ?ev = "\<lparr>after = alert_form t, formID = fid\<rparr>"
  let ?ess = "essential_data (alert_form t) ''12:00''"
  let ?add = "add_member ''FLOOD'' kolonaki fid ?ess kolonaki_bounds s"
  have bnds: "kolonaki_bounds \<noteq> JNull" by (simp add: kolonaki_bounds_def)
  have add: "add_member ''FLOOD'' kolonaki fid ?ess kolonaki_bounds =
      writes_of_member [ALERTS, ''FLOOD'', kolonaki] [fid] [COUNTS, ''FLOOD'', kolonaki, ''counter'']
        ?ess kolonaki_bounds"
    by (rule add_member_keys [OF test_keys(1,2) assms(2)])
  have "?add = (Inr (), snd ?add)"
    unfolding add
    using writes_of_member_tree(1) [OF essential_not_null bnds assms(1),
        where r = "[''FLOOD'', kolonaki]" and f = "[fid]"]
    by (simp add: prod_eq_iff)
  then have stored: "categorize_and_store_alert test_env ?ev s = (Inr Stored, snd ?add)"
    by (simp add: categorize_Stored_iff prepare_test_env) (simp add: alert_form_def)
  from stored show "fst (categorize_and_store_alert test_env ?ev s) = Inr Stored" by simp
  from stored show "tree (snd (categorize_and_store_alert test_env ?ev s))
      = put [COUNTS, ''FLOOD'', kolonaki, ''counter''] (JNum (c + 1))
          (alert_written [ALERTS, ''FLOOD'', kolonaki] [fid] ?ess kolonaki_bounds (tree s))"
    unfolding add
    using writes_of_member_tree(2) [OF essential_not_null bnds assms(1),
        where r = "[''FLOOD'', kolonaki]" and f = "[fid]"]
    by simp
qed

lemma one_old_forms:
  "get_path [ALERTS, ''FLOOD'', kolonaki, ''alertForms''] (tree one_old)
     = JObj [(''a'', stored_form old_ms)]"
  by (simp add: one_old_def flood_tree_def get_path.simps lookup_def)

lemma redelivered_tree:
  "tree (run test_env [Ingest \<lparr>after = alert_form old_ms, formID = ''a''\<rparr>,
                       Ingest \<lparr>after = alert_form old_ms, formID = ''a''\<rparr>] empty_store)
     = put [COUNTS, ''FLOOD'', kolonaki, ''counter''] (JNum 2)
         (alert_written [ALERTS, ''FLOOD'', kolonaki] [''a'']
            (essential_data (alert_form old_ms) ''12:00'') kolonaki_bounds (tree one_old))"
proof -
  let ?ev = "\<lparr>after = alert_form old_ms, formID = ''a''\<rparr>"
  let ?s1 = "snd (categorize_and_store_alert test_env ?ev empty_store)"
  have "num_of (py_or (get_path [COUNTS, ''FLOOD'', kolonaki, ''counter''] (tree ?s1)) (JNum 0))
      = Inr 1"
    by (simp only: ingestion_writes_one_old one_old_counter)
  from ingestion_test_env(2) [OF this test_keys(3), of old_ms] show ?thesis
    by (simp add: ingestion_writes_one_old)
qed

text \<open>
  C1, as stated, fails: the same alert ingested twice into the empty store leaves the
  bucket with one member and the counter 2.
\<close>

theorem counter_exceeds_members_after_redelivery:
  "counter_matches (tree empty_store) ''FLOOD'' kolonaki \<and>
   get_path [COUNTS, ''FLOOD'', kolonaki, ''counter'']
     (tree (run test_env [Ingest \<lparr>after = alert_form old_ms, formID = ''a''\<rparr>,
                          Ingest \<lparr>after = alert_form old_ms, formID = ''a''\<rparr>] empty_store))
     = JNum 2 \<and>
   member_ids
     (tree (run test_env [Ingest \<lparr>after = alert_form old_ms, formID = ''a''\<rparr>,
                          Ingest \<lparr>after = alert_form old_ms, formID = ''a''\<rparr>] empty_store))
     ''FLOOD'' kolonaki = [''a''] \<and>
   \<not> counter_matches
     (tree (run test_env [Ingest \<lparr>after = alert_form old_ms, formID = ''a''\<rparr>,
                          Ingest \<lparr>after = alert_form old_ms, formID = ''a''\<rparr>] empty_store))
     ''FLOOD'' kolonaki"
proof -
  let ?t = "tree (run test_env [Ingest \<lparr>after = alert_form old_ms, formID = ''a''\<rparr>,
                          Ingest \<lparr>after = alert_form old_ms, formID = ''a''\<rparr>] empty_store)"
  have empty: "counter_matches (tree empty_store) ''FLOOD'' kolonaki"
    by (simp add: counter_matches_def member_count_def member_ids_def empty_store_def)
  have counter: "get_path [COUNTS, ''FLOOD'', kolonaki, ''counter''] ?t = JNum 2"
    by (simp only: redelivered_tree get_put_same)
  have "get_path [ALERTS, ''FLOOD'', kolonaki, ''alertForms''] ?t
      = get_path [ALERTS, ''FLOOD'', kolonaki, ''alertForms'']
          (alert_written [ALERTS, ''FLOOD'', kolonaki] [''a'']
             (essential_data (alert_form old_ms) ''12:00'') kolonaki_bounds (tree one_old))"
    unfolding redelivered_tree by (simp add: get_put_unrelated)
  also have "\<dots> = JObj (AList.update ''a'' (stored_form old_ms) [(''a'', stored_form old_ms)])"
    using forms_after_alert_written
      [of "essential_data (alert_form old_ms) ''12:00''" "''FLOOD''" kolonaki "''a''"
          kolonaki_bounds "tree one_old"]
    by (simp add: normalize_essential) (simp add: normalize_test_values one_old_forms)
  finally have "get_path [ALERTS, ''FLOOD'', kolonaki, ''alertForms''] ?t
      = JObj [(''a'', stored_form old_ms)]"
    by simp
  then have ids: "member_ids ?t ''FLOOD'' kolonaki = [''a'']"
    by (simp add: member_ids_def)
  from counter ids have "\<not> counter_matches ?t ''FLOOD'' kolonaki"
    by (simp add: counter_matches_def member_count_def)
  with empty counter ids show ?thesis by blast
qed

theorem counter_matches_members_after_new_ids_witness:
  "counter_matches (tree empty_store) ''FLOOD'' kolonaki \<and>
   all_new test_env [Ingest \<lparr>after = alert_form old_ms, formID = ''a''\<rparr>,
                     Ingest \<lparr>after = alert_form young_ms, formID = ''b''\<rparr>] empty_store \<and>
   counter_matches
     (tree (run test_env [Ingest \<lparr>after = alert_form old_ms, formID = ''a''\<rparr>,
                          Ingest \<lparr>after = alert_form young_ms, formID = ''b''\<rparr>] empty_store))
     ''FLOOD'' kolonaki"
proof -
  have empty: "counter_matches (tree empty_store) ''FLOOD'' kolonaki"
    by (simp add: counter_matches_def member_count_def member_ids_def empty_store_def)
  have new: "all_new test_env [Ingest \<lparr>after = alert_form old_ms, formID = ''a''\<rparr>,
                     Ingest \<lparr>after = alert_form young_ms, formID = ''b''\<rparr>] empty_store"
    by (simp add: new_to_bucket_def keyed_def test_keys prepare_test_env member_ids_def
          ingestion_writes_one_old one_old_forms)
       (simp add: empty_store_def)
  from empty new counter_matches_members_after_new_ids [OF empty new] show ?thesis by simp
qed

lemma JObj_entries: "map_of (entries t) k = Some x \<Longrightarrow> JObj (entries t) = t"
  by (cases t) simp_all

lemma lookup_not_null: "lookup k t \<noteq> JNull \<Longrightarrow> map_of (entries t) k = Some (lookup k t)"
  by (auto simp: lookup_def split: option.splits)

lemma truthy_above: "lookup k t \<noteq> JNull \<Longrightarrow> truthy t"
  by (cases t) (auto simp: lookup_def)

lemma put_same: "get_path q t = v \<Longrightarrow> v \<noteq> JNull \<Longrightarrow> put q v t = t"
proof (induction q arbitrary: t)
  case Nil
  then show ?case by simp
next
  case (Cons k ks)
  from Cons.prems have below: "get_path ks (lookup k t) = v" by (simp add: get_path.simps)
  with Cons.prems(2) have child: "lookup k t \<noteq> JNull" by auto
  from Cons.IH [OF below Cons.prems(2)] have "put ks v (lookup k t) = lookup k t" .
  with child have "put (k # ks) v t = JObj (AList.update k (lookup k t) (entries t))"
    by (simp add: put.simps)
  also have "\<dots> = t"
    using lookup_not_null [OF child] by (simp add: update_triv JObj_entries)
  finally show ?case .
qed

lemma num_of_stored_counter: "num_of (py_or (JNum x) (JNum 0)) = Inr x"
  by (simp add: py_or_def)

text \<open>Writing the same alert once more, after the counter was written, changes nothing.\<close>

lemma alert_written_again:
  assumes "db_normalize ess \<noteq> JNull"
  shows "alert_written (ALERTS # r) f ess bnds
           (put (COUNTS # cr) c (alert_written (ALERTS # r) f ess bnds t))
         = put (COUNTS # cr) c (alert_written (ALERTS # r) f ess bnds t)"
proof -
  let ?place = "ALERTS # r"
  let ?t1 = "put (COUNTS # cr) c (alert_written ?place f ess bnds t)"
  have member: "get_path (?place @ ''alertForms'' # f) ?t1 = db_normalize ess"
    by (simp add: alert_written_def get_put_unrelated get_put_same)
  have "get_path (?place @ ''alertForms'' # f) ?t1
      = get_path f (lookup ''alertForms'' (get_path ?place ?t1))"
    by (simp only: get_path_append get_path.simps)
  with member assms have "lookup ''alertForms'' (get_path ?place ?t1) \<noteq> JNull"
    by auto
  then have "truthy (get_path ?place ?t1)" by (rule truthy_above)
  then have "alert_written ?place f ess bnds ?t1
      = put (?place @ ''alertForms'' # f) (db_normalize ess) ?t1"
    by (simp add: alert_written_def)
  also have "\<dots> = ?t1" by (rule put_same [OF member assms])
  finally show ?thesis .
qed

text \<open>
  C2, amended. When an ingestion has stored its alert, a second ingestion of the same
  event (the geocoding answering as before) stores it again: the alerts tree, and so the
  members of the bucket, stay as they were, and the counter of the bucket, at the
  reference of \<open>.../{phenomenon}/{place_id}/counter\<close>, grows by one once more.
\<close>

theorem second_ingestion_counts_again:
  assumes "categorize_and_store_alert e ev s = (Inr Stored, s1)"
  shows "\<exists>s2 ph pid ess bnds counter_ref c.
           prepare_alert e ev = Inr (ph, pid, ess, bnds) \<and>
           parse_path (slashed [COUNTS, ph, pid, ''counter'']) = Inr counter_ref \<and>
           categorize_and_store_alert e ev s1 = (Inr Stored, s2) \<and>
           get_path [ALERTS] (tree s2) = get_path [ALERTS] (tree s1) \<and>
           get_path counter_ref (tree s1) = JNum c \<and>
           get_path counter_ref (tree s2) = JNum (c + 1)"
proof -
  from assms obtain ph pid ess bnds
    where valid: "py_in (JStr ''location'') (after ev) = Inr True"
                 "py_in (JStr ''criticalWeatherPhenomenon'') (after ev) = Inr True"
      and prep: "prepare_alert e ev = Inr (ph, pid, ess, bnds)"
      and first: "add_member ph pid (formID ev) ess bnds s = (Inr (), s1)"
    by (auto simp: categorize_Stored_iff)
  from prepare_alert_Inr [OF prep] obtain time
    where bnds: "bnds \<noteq> JNull" and ess_eq: "ess = essential_data (after ev) time" by blast
  have ess: "ess \<noteq> JNull" "db_normalize ess \<noteq> JNull"
    by (simp_all add: ess_eq essential_not_null normalize_essential)
  have clean: "\<not> has_invalid ph" "\<not> has_invalid pid" "\<not> has_invalid (formID ev)"
    using add_member_invalid(1) [of ph pid "formID ev" ess bnds s] first by auto
  let ?r = "segments ph @ segments pid"
  let ?f = "segments (formID ev)"
  let ?cr = "segments ph @ segments pid @ [''counter'']"
  let ?cp = "COUNTS # ?cr"
  let ?w = "alert_written (ALERTS # ?r) ?f ess bnds"
  have add: "add_member ph pid (formID ev) ess bnds
      = writes_of_member (ALERTS # ?r) ?f ?cp ess bnds"
    by (rule add_member_parsed [OF clean])
  have ref: "parse_path (slashed [COUNTS, ph, pid, ''counter'']) = Inr ?cp"
    using clean by (simp add: parse_slashed)
  from first have first': "writes_of_member (ALERTS # ?r) ?f ?cp ess bnds s = (Inr (), s1)"
    by (simp only: add)
  from writes_of_member_Inr [OF first'] obtain c0
    where c0: "num_of (py_or (get_path ?cp (tree s)) (JNum 0)) = Inr c0"
    by blast
  have t1: "tree s1 = put ?cp (JNum (c0 + 1)) (?w (tree s))"
    using writes_of_member_tree(2) [OF ess(1) bnds c0, of ?r ?f] first' by simp
  have counter1: "get_path ?cp (tree s1) = JNum (c0 + 1)"
    by (simp add: t1 get_put_same)
  have c1: "num_of (py_or (get_path ?cp (tree s1)) (JNum 0)) = Inr (c0 + 1)"
    by (simp only: counter1 num_of_stored_counter)
  let ?s2 = "snd (add_member ph pid (formID ev) ess bnds s1)"
  have "add_member ph pid (formID ev) ess bnds s1 = (Inr (), ?s2)"
    unfolding add
    using writes_of_member_tree(1) [OF ess(1) bnds c1, of ?r ?f] by (simp add: prod_eq_iff)
  with valid prep have second: "categorize_and_store_alert e ev s1 = (Inr Stored, ?s2)"
    by (auto simp: categorize_Stored_iff)
  have "tree ?s2 = put ?cp (JNum (c0 + 1 + 1)) (?w (tree s1))"
    unfolding add by (rule writes_of_member_tree(2) [OF ess(1) bnds c1])
  also have "?w (tree s1) = tree s1"
    unfolding t1 by (rule alert_written_again [OF ess(2)])
  finally have t2: "tree ?s2 = put ?cp (JNum (c0 + 1 + 1)) (tree s1)" .
  have alerts: "get_path [ALERTS] (tree ?s2) = get_path [ALERTS] (tree s1)"
    by (simp add: t2 get_put_unrelated)
  have counter2: "get_path ?cp (tree ?s2) = JNum (c0 + 1 + 1)"
    by (simp add: t2 get_put_same)
  from prep ref second alerts counter1 counter2 show ?thesis by blast
qed

lemma empty_store_counter:
  "num_of (py_or (get_path [COUNTS, ''FLOOD'', kolonaki, ''counter''] (tree empty_store)) (JNum 0))
     = Inr 0"
  by (simp add: empty_store_def py_or_def)

lemma first_ingestion_stored:
  "categorize_and_store_alert test_env \<lparr>after = alert_form old_ms, formID = ''a''\<rparr> empty_store
     = (Inr Stored,
        snd (categorize_and_store_alert test_env
               \<lparr>after = alert_form old_ms, formID = ''a''\<rparr> empty_store))"
  using ingestion_test_env(1) [OF empty_store_counter test_keys(3), of old_ms]
  by (simp add: prod_eq_iff)

text \<open>
  C2, as stated, fails: after the first ingestion of the alert into the empty store the
  counter is 1, after the second ingestion of the same alert it is 2.
\<close>

theorem second_ingestion_changes_counter:
  "fst (categorize_and_store_alert test_env \<lparr>after = alert_form old_ms, formID = ''a''\<rparr>
          empty_store) = Inr Stored \<and>
   get_path [COUNTS, ''FLOOD'', kolonaki, ''counter'']
     (tree (snd (categorize_and_store_alert test_env
                   \<lparr>after = alert_form old_ms, formID = ''a''\<rparr> empty_store))) = JNum 1 \<and>
   fst (categorize_and_store_alert test_env \<lparr>after = alert_form old_ms, formID = ''a''\<rparr>
          (snd (categorize_and_store_alert test_env
                  \<lparr>after = alert_form old_ms, formID = ''a''\<rparr> empty_store))) = Inr Stored \<and>
   get_path [COUNTS, ''FLOOD'', kolonaki, ''counter'']
     (tree (snd (categorize_and_store_alert test_env
              \<lparr>after = alert_form old_ms, formID = ''a''\<rparr>
              (snd (categorize_and_store_alert test_env
                      \<lparr>after = alert_form old_ms, formID = ''a''\<rparr> empty_store))))) = JNum 2"
proof -
  let ?ev = "\<lparr>after = alert_form old_ms, formID = ''a''\<rparr>"
  let ?s1 = "snd (categorize_and_store_alert test_env ?ev empty_store)"
  let ?cp = "[COUNTS, ''FLOOD'', kolonaki, ''counter'']"
  have first: "fst (categorize_and_store_alert test_env ?ev empty_store) = Inr Stored"
    by (rule ingestion_test_env(1) [OF empty_store_counter test_keys(3)])
  have counter1: "get_path ?cp (tree ?s1) = JNum 1"
    by (simp add: ingestion_writes_one_old one_old_def flood_tree_def get_path.simps lookup_def)
  have c1: "num_of (py_or (get_path ?cp (tree ?s1)) (JNum 0)) = Inr 1"
    by (simp only: counter1 num_of_stored_counter)
  have second: "fst (categorize_and_store_alert test_env ?ev ?s1) = Inr Stored"
    by (rule ingestion_test_env(1) [OF c1 test_keys(3)])
  have counter2: "get_path ?cp (tree (snd (categorize_and_store_alert test_env ?ev ?s1))) = JNum 2"
    by (simp add: ingestion_test_env(2) [OF c1 test_keys(3)] get_put_same)
  from first counter1 second counter2 show ?thesis by blast
qed

theorem second_ingestion_counts_again_witness:
  "categorize_and_store_alert test_env \<lparr>after = alert_form old_ms, formID = ''a''\<rparr> empty_store
     = (Inr Stored,
        snd (categorize_and_store_alert test_env
               \<lparr>after = alert_form old_ms, formID = ''a''\<rparr> empty_store)) \<and>
   (\<exists>s2 ph pid ess bnds counter_ref c.
      prepare_alert test_env \<lparr>after = alert_form old_ms, formID = ''a''\<rparr>
        = Inr (ph, pid, ess, bnds) \<and>
      parse_path (slashed [COUNTS, ph, pid, ''counter'']) = Inr counter_ref \<and>
      categorize_and_store_alert test_env \<lparr>after = alert_form old_ms, formID = ''a''\<rparr>
        (snd (categorize_and_store_alert test_env
                \<lparr>after = alert_form old_ms, formID = ''a''\<rparr> empty_store))
        = (Inr Stored, s2) \<and>
      get_path [ALERTS] (tree s2)
        = get_path [ALERTS]
            (tree (snd (categorize_and_store_alert test_env
                     \<lparr>after = alert_form old_ms, formID = ''a''\<rparr> empty_store))) \<and>
      get_path counter_ref
        (tree (snd (categorize_and_store_alert test_env
                 \<lparr>after = alert_form old_ms, formID = ''a''\<rparr> empty_store))) = JNum c \<and>
      get_path counter_ref (tree s2) = JNum (c + 1))"
  using first_ingestion_stored second_ingestion_counts_again [OF first_ingestion_stored]
  by blast

section \<open>Two ingestions at once\<close>

lemmas ref_eval = reference_def parse_slashed segments_key valid_key

text \<open>Run alone, the steps of a call are \<open>add_member\<close>.\<close>

lemma steps_refine_add_member:
  "steps c 5 (Begin, s) =
     (case add_member (c_phenomenon c) (c_place_id c) (c_form_id c) (c_essential c) (c_bounds c) s of
        (Inr u, s') \<Rightarrow> (Done, s')
      | (Inl err, s') \<Rightarrow> (Raised err, s'))"
  by (simp add: eval_nat_numeral add_member_def proceed_def prog_defs reference_def
        split: sum.splits)

text \<open>Every step of a call that is not through brings it nearer to its end.\<close>

lemma member_step_progress: "remaining (fst (member_step c x s)) \<le> remaining x - 1"
  by (cases x) (auto simp: proceed_def split: prod.splits sum.splits)

lemma interleave_progress:
  "interleave A B sched (a, b, s) = (a', b', s') \<Longrightarrow>
     remaining a' \<le> remaining a - count_list sched True \<and>
     remaining b' \<le> remaining b - count_list sched False"
proof (induction sched arbitrary: a b s)
  case Nil
  then show ?case by simp
next
  case (Cons first sched)
  show ?case
  proof (cases first)
    case True
    with Cons.prems have "interleave A B sched
        (fst (member_step A a s), b, snd (member_step A a s)) = (a', b', s')"
      by simp
    from Cons.IH [OF this] member_step_progress [of A a s] True show ?thesis
      by (simp; arith)
  next
    case False
    with Cons.prems have "interleave A B sched
        (a, fst (member_step B b s), snd (member_step B b s)) = (a', b', s')"
      by simp
    from Cons.IH [OF this] member_step_progress [of B b s] False show ?thesis
      by (simp; arith)
  qed
qed

lemma remaining_none: "remaining x = 0 \<Longrightarrow> x = Done \<or> (\<exists>err. x = Raised err)"
  by (cases x) simp_all

lemma member_step_keeps:
  assumes bucket: "c_phenomenon Y = c_phenomenon X" "c_place_id Y = c_place_id X"
    and ids: "c_form_id X \<noteq> c_form_id Y"
    and keys: "is_key (c_phenomenon X)" "is_key (c_place_id X)" "is_key (c_form_id X)"
    and vals: "c_essential X \<noteq> JNull" "c_bounds X \<noteq> JNull"
    and cur: "num_of (py_or (get_path [COUNTS, c_phenomenon X, c_place_id X, ''counter''] (tree s))
                        (JNum 0)) = Inr v"
    and stored: "x = Done \<or> y = Done \<longrightarrow>
        get_path [COUNTS, c_phenomenon X, c_place_id X, ''counter''] (tree s) = JNum v"
    and own: "own_ok X c0 v x (tree s)" and other: "own_ok Y c0 v y (tree s)"
    and tot: "accounted c0 v (x = Done) (y = Done)"
  shows "\<exists>v'. num_of (py_or (get_path [COUNTS, c_phenomenon X, c_place_id X, ''counter'']
                               (tree (snd (member_step X x s)))) (JNum 0)) = Inr v' \<and>
           (fst (member_step X x s) = Done \<or> y = Done \<longrightarrow>
              get_path [COUNTS, c_phenomenon X, c_place_id X, ''counter'']
                (tree (snd (member_step X x s))) = JNum v') \<and>
           own_ok X c0 v' (fst (member_step X x s)) (tree (snd (member_step X x s))) \<and>
           own_ok Y c0 v' y (tree (snd (member_step X x s))) \<and>
           accounted c0 v' (fst (member_step X x s) = Done) (y = Done)"
proof (cases x)
  case Begin
  with assms show ?thesis
    by (intro exI [of _ v]) (simp add: proceed_def prog_defs ref_eval own_ok_def)
next
  case (Checked pe)
  with assms show ?thesis
    by (intro exI [of _ v])
       (auto simp: proceed_def prog_defs ref_eval own_ok_def get_put_unrelated get_put_same)
next
  case Saving_bounds
  with assms show ?thesis
    by (intro exI [of _ v])
       (auto simp: proceed_def prog_defs ref_eval own_ok_def get_put_unrelated get_put_same)
next
  case Reading
  with assms show ?thesis
    by (intro exI [of _ v]) (simp add: proceed_def prog_defs ref_eval own_ok_def)
next
  case (Writing counter_ref xv)
  let ?cp = "[COUNTS, c_phenomenon X, c_place_id X, ''counter'']"
  from Writing own obtain r where ref: "counter_ref = ?cp"
    and r: "num_of (py_or xv (JNum 0)) = Inr r" and rv: "r = c0 \<or> r = v"
    by (auto simp: own_ok_def)
  let ?s' = "snd (member_step X x s)"
  have step: "member_step X x s =
      (Done, s\<lparr>tree := put ?cp (JNum (r + 1)) (tree s),
               ops := ops s @ [Set ?cp (JNum (r + 1))]\<rparr>)"
    using Writing r ref by (simp add: proceed_def prog_defs)
  have counter: "get_path ?cp (tree ?s') = JNum (r + 1)"
    by (simp add: step get_put_same)
  from own Writing have member:
    "get_path [ALERTS, c_phenomenon X, c_place_id X, ''alertForms'', c_form_id X] (tree s)
       = db_normalize (c_essential X)"
    by (simp add: own_ok_def)
  have own': "own_ok X c0 (r + 1) Done (tree ?s')"
    by (simp add: own_ok_def step get_put_unrelated member)
  from tot Writing have tot_before: "accounted c0 v False (y = Done)" by simp
  have tot': "accounted c0 (r + 1) True (y = Done)"
    using tot_before rv by (auto simp: accounted_def split: if_splits)
  have other': "own_ok Y c0 (r + 1) y (tree ?s')"
  proof (cases "y = Done")
    case True
    with other show ?thesis by (simp add: own_ok_def step get_put_unrelated)
  next
    case False
    with tot_before have "v = c0" by (simp add: accounted_def)
    with other show ?thesis
      by (cases y) (auto simp: own_ok_def step get_put_unrelated)
  qed
  from counter own' other' tot' show ?thesis
    by (intro exI [of _ "r + 1"]) (simp add: step num_of_stored_counter)
next
  case Done
  with assms show ?thesis
    by (intro exI [of _ v]) simp
next
  case (Raised err)
  with own show ?thesis by (simp add: own_ok_def)
qed

lemma accounted_commute: "accounted c0 v da db = accounted c0 v db da"
  by (auto simp: accounted_def)

lemma interleave_keeps:
  assumes bucket: "c_phenomenon B = c_phenomenon A" "c_place_id B = c_place_id A"
    and ids: "c_form_id A \<noteq> c_form_id B"
    and keys: "is_key (c_phenomenon A)" "is_key (c_place_id A)"
              "is_key (c_form_id A)" "is_key (c_form_id B)"
    and vals: "c_essential A \<noteq> JNull" "c_bounds A \<noteq> JNull"
              "c_essential B \<noteq> JNull" "c_bounds B \<noteq> JNull"
  shows "concurrent_inv A B c0 cfg \<Longrightarrow> concurrent_inv A B c0 (interleave A B sched cfg)"
proof (induction sched arbitrary: cfg)
  case Nil
  then show ?case by simp
next
  case (Cons first sched)
  obtain a b s where cfg: "cfg = (a, b, s)" by (cases cfg) auto
  from Cons.prems obtain v
    where cur: "num_of (py_or (get_path [COUNTS, c_phenomenon A, c_place_id A, ''counter'']
                                 (tree s)) (JNum 0)) = Inr v"
      and stored: "a = Done \<or> b = Done \<longrightarrow>
          get_path [COUNTS, c_phenomenon A, c_place_id A, ''counter''] (tree s) = JNum v"
      and oa: "own_ok A c0 v a (tree s)" and ob: "own_ok B c0 v b (tree s)"
      and tot: "accounted c0 v (a = Done) (b = Done)"
    by (auto simp: concurrent_inv_def cfg)
  show ?case
  proof (cases first)
    case True
    from member_step_keeps [OF bucket ids keys(1,2,3) vals(1,2) cur stored oa ob tot]
    have "concurrent_inv A B c0 (fst (member_step A a s), b, snd (member_step A a s))"
      by (auto simp: concurrent_inv_def)
    with True show ?thesis by (simp add: cfg Cons.IH)
  next
    case False
    have cur': "num_of (py_or (get_path [COUNTS, c_phenomenon B, c_place_id B, ''counter'']
                                 (tree s)) (JNum 0)) = Inr v"
      and stored': "b = Done \<or> a = Done \<longrightarrow>
          get_path [COUNTS, c_phenomenon B, c_place_id B, ''counter''] (tree s) = JNum v"
      using cur stored by (auto simp: bucket)
    from keys have keys': "is_key (c_phenomenon B)" "is_key (c_place_id B)"
      by (simp_all add: bucket)
    from tot have tot': "accounted c0 v (b = Done) (a = Done)"
      by (simp add: accounted_commute)
    from member_step_keeps [OF bucket [symmetric] ids [symmetric] keys' keys(4) vals(3,4)
        cur' stored' ob oa tot']
    have "concurrent_inv A B c0 (a, fst (member_step B b s), snd (member_step B b s))"
      by (auto simp: concurrent_inv_def bucket accounted_commute)
    with False show ?thesis by (simp add: cfg Cons.IH)
  qed
qed

text \<open>
  C6, amended. Two ingestions into one bucket with distinct record ids, whose phenomenon,
  place id and record ids are keys, their calls on the database interleaved in any
  order: neither raises; once each has had five turns, both are through; and once both
  are through, both alerts are stored and the counter is the prior counter plus two or
  the prior counter plus one. The counter is read and written back in two separate
  calls, not in one.
\<close>

theorem concurrent_ingestions_counter:
  assumes "c_phenomenon B = c_phenomenon A" and "c_place_id B = c_place_id A"
    and "c_form_id A \<noteq> c_form_id B"
    and "is_key (c_phenomenon A)" and "is_key (c_place_id A)"
    and "is_key (c_form_id A)" and "is_key (c_form_id B)"
    and "c_essential A \<noteq> JNull" and "c_bounds A \<noteq> JNull"
    and "c_essential B \<noteq> JNull" and "c_bounds B \<noteq> JNull"
    and "num_of (py_or (get_path [COUNTS, c_phenomenon A, c_place_id A, ''counter''] (tree s))
                  (JNum 0)) = Inr c0"
    and "interleave A B sched (Begin, Begin, s) = (a, b, s')"
  shows "(\<forall>err. a \<noteq> Raised err \<and> b \<noteq> Raised err) \<and>
         (5 \<le> count_list sched True \<and> 5 \<le> count_list sched False \<longrightarrow> a = Done \<and> b = Done) \<and>
         (a = Done \<and> b = Done \<longrightarrow>
            get_path [ALERTS, c_phenomenon A, c_place_id A, ''alertForms'', c_form_id A] (tree s')
              = db_normalize (c_essential A) \<and>
            get_path [ALERTS, c_phenomenon B, c_place_id B, ''alertForms'', c_form_id B] (tree s')
              = db_normalize (c_essential B) \<and>
            (get_path [COUNTS, c_phenomenon A, c_place_id A, ''counter''] (tree s') = JNum (c0 + 1) \<or>
             get_path [COUNTS, c_phenomenon A, c_place_id A, ''counter''] (tree s') = JNum (c0 + 2)))"
proof -
  have "concurrent_inv A B c0 (Begin, Begin, s)"
    using assms(12) by (simp add: concurrent_inv_def own_ok_def accounted_def)
  from interleave_keeps [OF assms(1-11) this, of sched] assms(13)
  have inv: "concurrent_inv A B c0 (a, b, s')" by simp
  then have unraised: "\<forall>err. a \<noteq> Raised err \<and> b \<noteq> Raised err"
    by (auto simp: concurrent_inv_def own_ok_def)
  have through: "a = Done \<and> b = Done"
    if turns: "5 \<le> count_list sched True \<and> 5 \<le> count_list sched False"
  proof -
    from interleave_progress [OF assms(13)] turns
    have "remaining a = 0" "remaining b = 0" by simp_all
    with unraised show ?thesis by (auto dest: remaining_none)
  qed
  from inv have ended: "a = Done \<and> b = Done \<longrightarrow>
      get_path [ALERTS, c_phenomenon A, c_place_id A, ''alertForms'', c_form_id A] (tree s')
        = db_normalize (c_essential A) \<and>
      get_path [ALERTS, c_phenomenon B, c_place_id B, ''alertForms'', c_form_id B] (tree s')
        = db_normalize (c_essential B) \<and>
      (get_path [COUNTS, c_phenomenon A, c_place_id A, ''counter''] (tree s') = JNum (c0 + 1) \<or>
       get_path [COUNTS, c_phenomenon A, c_place_id A, ''counter''] (tree s') = JNum (c0 + 2))"
    by (auto simp: concurrent_inv_def own_ok_def accounted_def)
  from unraised through ended show ?thesis by blast
qed

lemmas call_defs = call_a_def call_b_def

lemma call_values:
  "c_essential call_a \<noteq> JNull" "c_bounds call_a \<noteq> JNull"
  "c_essential call_b \<noteq> JNull" "c_bounds call_b \<noteq> JNull"
  by (simp_all add: call_defs essential_not_null kolonaki_bounds_def)

lemma call_keys:
  "is_key (c_phenomenon call_a)" "is_key (c_place_id call_a)"
  "is_key (c_form_id call_a)" "is_key (c_form_id call_b)"
  by (simp_all add: call_defs test_keys)

lemmas schedule_eval =
  call_defs proceed_def prog_defs ref_eval test_keys empty_store_def get_put_unrelated
  get_put_same py_or_def essential_not_null

text \<open>
  C6, as stated, fails: when the two calls take turns, both read the counter before
  either writes it; both end without an exception and both alerts are stored, but the
  counter of the new bucket is 1, not 2.
\<close>

theorem concurrent_ingestions_lose_an_update:
  "fst (interleave call_a call_b
          [True, False, True, False, True, False, True, False, True, False]
          (Begin, Begin, empty_store)) = Done \<and>
   fst (snd (interleave call_a call_b
          [True, False, True, False, True, False, True, False, True, False]
          (Begin, Begin, empty_store))) = Done \<and>
   get_path [COUNTS, ''FLOOD'', kolonaki, ''counter''] (tree empty_store) = JNull \<and>
   get_path [COUNTS, ''FLOOD'', kolonaki, ''counter'']
     (tree (snd (snd (interleave call_a call_b
          [True, False, True, False, True, False, True, False, True, False]
          (Begin, Begin, empty_store))))) = JNum 1 \<and>
   get_path [ALERTS, ''FLOOD'', kolonaki, ''alertForms'', ''a'']
     (tree (snd (snd (interleave call_a call_b
          [True, False, True, False, True, False, True, False, True, False]
          (Begin, Begin, empty_store))))) = stored_form old_ms \<and>
   get_path [ALERTS, ''FLOOD'', kolonaki, ''alertForms'', ''b'']
     (tree (snd (snd (interleave call_a call_b
          [True, False, True, False, True, False, True, False, True, False]
          (Begin, Begin, empty_store))))) = stored_form young_ms"
proof -
  have bnds: "kolonaki_bounds \<noteq> JNull" by (simp add: kolonaki_bounds_def)
  show ?thesis
    by (simp add: schedule_eval bnds normalize_test_values)
qed

theorem concurrent_ingestions_counter_witness:
  "c_phenomenon call_b = c_phenomenon call_a \<and> c_place_id call_b = c_place_id call_a \<and>
   c_form_id call_a \<noteq> c_form_id call_b \<and>
   is_key (c_phenomenon call_a) \<and> is_key (c_place_id call_a) \<and>
   is_key (c_form_id call_a) \<and> is_key (c_form_id call_b) \<and>
   c_essential call_a \<noteq> JNull \<and> c_bounds call_a \<noteq> JNull \<and>
   c_essential call_b \<noteq> JNull \<and> c_bounds call_b \<noteq> JNull \<and>
   num_of (py_or (get_path [COUNTS, c_phenomenon call_a, c_place_id call_a, ''counter'']
                    (tree empty_store)) (JNum 0)) = Inr 0 \<and>
   5 \<le> count_list [True, False, True, True, True, True, False, False, False, False] True \<and>
   5 \<le> count_list [True, False, True, True, True, True, False, False, False, False] False \<and>
   fst (interleave call_a call_b
          [True, False, True, True, True, True, False, False, False, False]
          (Begin, Begin, empty_store)) = Done \<and>
   fst (snd (interleave call_a call_b
          [True, False, True, True, True, True, False, False, False, False]
          (Begin, Begin, empty_store))) = Done \<and>
   get_path [COUNTS, ''FLOOD'', kolonaki, ''counter'']
     (tree (snd (snd (interleave call_a call_b
          [True, False, True, True, True, True, False, False, False, False]
          (Begin, Begin, empty_store))))) = JNum 2 \<and>
   (get_path [COUNTS, c_phenomenon call_a, c_place_id call_a, ''counter'']
      (tree (snd (snd (interleave call_a call_b
          [True, False, True, True, True, True, False, False, False, False]
          (Begin, Begin, empty_store))))) = JNum (0 + 1) \<or>
    get_path [COUNTS, c_phenomenon call_a, c_place_id call_a, ''counter'']
      (tree (snd (snd (interleave call_a call_b
          [True, False, True, True, True, True, False, False, False, False]
          (Begin, Begin, empty_store))))) = JNum (0 + 2))"
proof -
  let ?sched = "[True, False, True, True, True, True, False, False, False, False]"
  let ?end = "interleave call_a call_b ?sched (Begin, Begin, empty_store)"
  have bnds: "kolonaki_bounds \<noteq> JNull" by (simp add: kolonaki_bounds_def)
  have same: "c_phenomenon call_b = c_phenomenon call_a" "c_place_id call_b = c_place_id call_a"
    and ids: "c_form_id call_a \<noteq> c_form_id call_b"
    by (simp_all add: call_defs)
  have c0: "num_of (py_or (get_path [COUNTS, c_phenomenon call_a, c_place_id call_a, ''counter'']
                    (tree empty_store)) (JNum 0)) = Inr 0"
    by (simp add: empty_store_def py_or_def)
  have turns: "5 \<le> count_list ?sched True" "5 \<le> count_list ?sched False"
    by simp_all
  have two: "get_path [COUNTS, ''FLOOD'', kolonaki, ''counter''] (tree (snd (snd ?end))) = JNum 2"
    by (simp add: schedule_eval bnds)
  have run: "?end = (fst ?end, fst (snd ?end), snd (snd ?end))" by simp
  note ended = concurrent_ingestions_counter [OF same ids call_keys call_values c0 run]
  from ended turns have done_a: "fst ?end = Done" and done_b: "fst (snd ?end) = Done"
    by blast+
  from ended done_a done_b
  have "get_path [COUNTS, c_phenomenon call_a, c_place_id call_a, ''counter'']
          (tree (snd (snd ?end))) = JNum (0 + 1) \<or>
        get_path [COUNTS, c_phenomenon call_a, c_place_id call_a, ''counter'']
          (tree (snd (snd ?end))) = JNum (0 + 2)"
    by blast
  with same ids call_keys call_values c0 turns done_a done_b two show ?thesis by blast
qed

end
